theory Spec2Isabelle
  imports Complex_Main "HOL-Library.Word"
begin

section \<open>Values exchanged with the workers\<close>

text \<open>
  The runner of \<^verbatim>\<open>env_runners/replenishment_runner.py\<close> moves numpy arrays and Python
  numbers around. Both are modelled by one type: a number (Python \<^verbatim>\<open>bool\<close>, \<^verbatim>\<open>int\<close> and
  \<^verbatim>\<open>float\<close>, with \<^verbatim>\<open>True\<close> as 1 and \<^verbatim>\<open>False\<close> as 0; floats are idealised as reals) or an
  array given by the list of its entries along the first axis.
\<close>

datatype nd = Scalar real | Nd "nd list"

datatype error = TypeError | IndexError | KeyError | ValueError

text \<open>\<^verbatim>\<open>np.zeros(shape)\<close> and \<^verbatim>\<open>np.ones(shape)\<close>; the shape is the list of the axes' sizes.\<close>

fun np_full :: "real \<Rightarrow> nat list \<Rightarrow> nd" where
  "np_full v [] = Scalar v"
| "np_full v (n # ns) = Nd (replicate n (np_full v ns))"

definition np_zeros :: "nat list \<Rightarrow> nd" where
  "np_zeros shape = np_full 0 shape"

definition np_ones :: "nat list \<Rightarrow> nd" where
  "np_ones shape = np_full 1 shape"

text \<open>\<^verbatim>\<open>np.expand_dims(x, axis=-1)\<close>: every innermost number becomes an array of one entry.\<close>

fun expand_dims :: "nd \<Rightarrow> nd" where
  "expand_dims (Scalar x) = Nd [Scalar x]"
| "expand_dims (Nd ts) = Nd (map expand_dims ts)"

text \<open>\<^verbatim>\<open>a + v\<close> for a Python number \<open>a\<close>: numpy adds \<open>a\<close> to every entry of an array.\<close>

fun radd :: "real \<Rightarrow> nd \<Rightarrow> nd" where
  "radd a (Scalar b) = Scalar (a + b)"
| "radd a (Nd ts) = Nd (map (radd a) ts)"

fun nd_flat :: "nd \<Rightarrow> real list" where
  "nd_flat (Scalar x) = [x]"
| "nd_flat (Nd ts) = concat (map nd_flat ts)"

text \<open>
  The truth value Python's \<^verbatim>\<open>not v\<close> asks for: a number is true when it is not zero, an
  array of exactly one entry has the truth value of that entry, and numpy raises
  \<^verbatim>\<open>ValueError\<close> for any other array.
\<close>

definition py_bool :: "nd \<Rightarrow> error + bool" where
  "py_bool v = (case nd_flat v of [x] \<Rightarrow> Inr (x \<noteq> 0) | _ \<Rightarrow> Inl ValueError)"

type_synonym info = "string \<rightharpoonup> nd"

text \<open>\<^verbatim>\<open>d.get(k, default)\<close>.\<close>

definition dict_get :: "(string \<rightharpoonup> 'v) \<Rightarrow> string \<Rightarrow> 'v \<Rightarrow> 'v" where
  "dict_get d k dflt = (case d k of None \<Rightarrow> dflt | Some v \<Rightarrow> v)"

text \<open>
  The truth value of \<^verbatim>\<open>info.get("episode_limit", False)\<close>, which both step functions
  negate once the reply says \<^verbatim>\<open>terminated\<close>.
\<close>

definition limit_flag :: "info \<Rightarrow> error + bool" where
  "limit_flag env_info = py_bool (dict_get env_info ''episode_limit'' (Scalar 0))"

text \<open>\<^verbatim>\<open>actions[idx]\<close> with the default \<^verbatim>\<open>actions=None\<close> of both step functions.\<close>

definition py_index :: "'a list option \<Rightarrow> nat \<Rightarrow> error + 'a" where
  "py_index actions idx =
     (case actions of
        None \<Rightarrow> Inl TypeError
      | Some as \<Rightarrow> if idx < length as then Inr (as ! idx) else Inl IndexError)"

subsection \<open>Commands and replies of \<^verbatim>\<open>env_worker\<close>\<close>

datatype 'a cmd = CStep 'a | CReset | CClose

text \<open>
  What \<^verbatim>\<open>env_worker\<close> sends back for \<^verbatim>\<open>"step"\<close> (six entries) and for \<^verbatim>\<open>"reset"\<close> (three
  entries). The simulation is a black box: for one call of a step function, \<open>workers\<close>
  gives the reply that worker \<open>idx\<close> makes to the command it is sent in that call.
\<close>

record step_msg =
  m_state :: nd
  m_avail_actions :: nd
  m_obs :: nd
  m_reward :: real
  m_terminated :: bool
  m_info :: info

record reset_msg =
  r_state :: nd
  r_avail_actions :: nd
  r_obs :: nd

record 'a workers =
  step_reply :: "nat \<Rightarrow> 'a \<Rightarrow> step_msg"
  reset_reply :: "nat \<Rightarrow> reset_msg"

section \<open>The runner\<close>

record args =
  cfg_env_batch_size :: nat
  cfg_evaluate_batch_size :: nat
  asynchronous_env :: bool
  n_agents :: nat
  n_actions :: nat
  state_shape :: nat
  obs_shape :: nat

text \<open>
  The attributes of \<^verbatim>\<open>ReplenishmentRunner\<close>. \<open>envs_step\<close> is an \<^verbatim>\<open>int32\<close> array,
  \<open>env_total_step\<close> and the episode lengths are Python integers. \<open>live_env\<close> is only
  assigned by \<^verbatim>\<open>reset_all_env\<close>, so it is absent (\<open>None\<close>) until then.
\<close>

record runner =
  rargs :: args
  evaluate :: bool
  env_batch_size :: nat
  env_total_step :: int
  terminated :: "bool list"
  envs_step :: "32 word list"
  episode_returns :: "real list"
  episode_lengths :: "int list"
  live_env :: "nat option"

text \<open>\<^verbatim>\<open>__init__\<close> followed by \<^verbatim>\<open>_init_env\<close> (the processes and pipes are not state of the model).\<close>

definition init_env :: "args \<Rightarrow> bool \<Rightarrow> runner" where
  "init_env a ev =
     (let n = (if ev then cfg_evaluate_batch_size a else cfg_env_batch_size a) in
      \<lparr> rargs = a, evaluate = ev, env_batch_size = n,
        env_total_step = 0,
        terminated = replicate n True,
        envs_step = replicate n 0,
        episode_returns = replicate n 0,
        episode_lengths = replicate n 0,
        live_env = None \<rparr>)"

definition reset_all_env :: "runner \<Rightarrow> runner" where
  "reset_all_env s =
     s\<lparr> envs_step := replicate (env_batch_size s) 0,
        terminated := replicate (env_batch_size s) True,
        live_env := Some (env_batch_size s) \<rparr>"

text \<open>\<^verbatim>\<open>int(np.sum(self.terminated == False))\<close>.\<close>

definition alive_env :: "runner \<Rightarrow> int" where
  "alive_env s = int (length (filter (\<lambda>b. b = False) (terminated s)))"

definition close_env :: "runner \<Rightarrow> (nat \<times> 'a cmd) list" where
  "close_env s = map (\<lambda>idx. (idx, CClose)) [0..<env_batch_size s]"

text \<open>All four per-worker arrays have one entry per worker.\<close>

definition runner_inv :: "runner \<Rightarrow> bool" where
  "runner_inv s \<longleftrightarrow>
     length (terminated s) = env_batch_size s \<and>
     length (envs_step s) = env_batch_size s \<and>
     length (episode_returns s) = env_batch_size s \<and>
     length (episode_lengths s) = env_batch_size s"

subsection \<open>Terminal episode records\<close>

text \<open>
  \<^verbatim>\<open>get_terminated_env_info\<close>. The record starts from the two counters of the worker,
  which are then reset. The dict comprehension visits every key of the record or of
  \<open>env_info\<close> and stores the sum of the two entries, a missing one counting as 0; the
  counters are Python numbers, so the left operand of \<^verbatim>\<open>+\<close> is always a number. In
  evaluation mode every key gets the prefix \<^verbatim>\<open>test_\<close>. A dict is a map: the order of its
  keys is not modelled.
\<close>

definition prefix_keys :: "string \<Rightarrow> info \<Rightarrow> info" where
  "prefix_keys p d = (\<lambda>k. if take (length p) k = p then d (drop (length p) k) else None)"

definition get_terminated_env_info :: "runner \<Rightarrow> nat \<Rightarrow> info \<Rightarrow> info \<times> runner" where
  "get_terminated_env_info s env_idx env_info =
     (let terminated_env_info =
            [''episode_length'' \<mapsto> real_of_int (episode_lengths s ! env_idx),
             ''episode_return'' \<mapsto> episode_returns s ! env_idx];
          s' = s\<lparr> episode_lengths := (episode_lengths s)[env_idx := 0],
                  episode_returns := (episode_returns s)[env_idx := 0] \<rparr>;
          summed = (\<lambda>k. if terminated_env_info k \<noteq> None \<or> env_info k \<noteq> None
                         then Some (radd (dict_get terminated_env_info k 0)
                                         (dict_get env_info k (Scalar 0)))
                         else None);
          updated = (map_option Scalar \<circ> terminated_env_info) ++ summed
      in if evaluate s then (prefix_keys ''test_'' updated, s') else (updated, s'))"

text \<open>
  The dict that \<open>get_terminated_env_info\<close> returns depends on the runner only through
  the evaluation flag and the two counters of the worker; \<open>terminal_record\<close> is that dict
  as a function of them (lemma \<open>get_terminated_env_info_eq\<close>).
\<close>

definition terminal_record :: "bool \<Rightarrow> int \<Rightarrow> real \<Rightarrow> info \<Rightarrow> info" where
  "terminal_record ev len ret env_info =
     (let terminated_env_info =
            [''episode_length'' \<mapsto> real_of_int len, ''episode_return'' \<mapsto> ret];
          summed = (\<lambda>k. if terminated_env_info k \<noteq> None \<or> env_info k \<noteq> None
                         then Some (radd (dict_get terminated_env_info k 0)
                                         (dict_get env_info k (Scalar 0)))
                         else None);
          updated = (map_option Scalar \<circ> terminated_env_info) ++ summed
      in if ev then prefix_keys ''test_'' updated else updated)"

subsection \<open>The step functions\<close>

text \<open>
  \<open>step_data\<close> is the dict of six lists that both step functions fill, one entry per
  worker. The entries of \<open>reward\<close> and \<open>terminated\<close> are the 1-tuples \<^verbatim>\<open>(r,)\<close> and \<^verbatim>\<open>(b,)\<close>
  of the source, written as their component. The final \<^verbatim>\<open>np.array(v)\<close> keeps the entries
  and their order, so the lists stand for the arrays; what numpy does with entries of
  unequal shapes is not part of the model.
\<close>

record step_data =
  sd_state :: "nd list"
  sd_avail_actions :: "nd list"
  sd_obs :: "nd list"
  sd_reward :: "real list"
  sd_individual_rewards :: "nd list"
  sd_terminated :: "bool list"

definition empty_step_data :: step_data where
  "empty_step_data =
     \<lparr> sd_state = [], sd_avail_actions = [], sd_obs = [], sd_reward = [],
       sd_individual_rewards = [], sd_terminated = [] \<rparr>"

text \<open>A \<^verbatim>\<open>for\<close> loop whose body may raise: the first exception ends the loop.\<close>

fun for_each :: "('i \<Rightarrow> 'st \<Rightarrow> error + 'st) \<Rightarrow> 'i list \<Rightarrow> 'st \<Rightarrow> error + 'st" where
  "for_each body [] st = Inr st"
| "for_each body (i # is) st =
     (case body i st of Inl e \<Rightarrow> Inl e | Inr st' \<Rightarrow> for_each body is st')"

text \<open>Body of the receiving loop of \<^verbatim>\<open>sync_step\<close> when every worker is terminated.\<close>

definition sync_reset_recv :: "'a workers \<Rightarrow> runner \<Rightarrow> nat \<Rightarrow> step_data \<Rightarrow> step_data" where
  "sync_reset_recv w s idx sd =
     (let data = reset_reply w idx in
      sd\<lparr> sd_reward := sd_reward sd @ [0],
          sd_individual_rewards :=
            sd_individual_rewards sd @ [np_zeros [n_agents (rargs s), 1]],
          sd_terminated := sd_terminated sd @ [False],
          sd_state := sd_state sd @ [r_state data],
          sd_avail_actions := sd_avail_actions sd @ [r_avail_actions data],
          sd_obs := sd_obs sd @ [r_obs data] \<rparr>)"

text \<open>
  Body of the sending loop of \<^verbatim>\<open>sync_step\<close> otherwise. The loop state is the runner and
  the commands put on the pipes so far, each with the index of its pipe.
\<close>

definition sync_send ::
  "'a list option \<Rightarrow> nat \<Rightarrow> runner \<times> (nat \<times> 'a cmd) list
     \<Rightarrow> error + runner \<times> (nat \<times> 'a cmd) list" where
  "sync_send actions idx st =
     (case st of (s, sent) \<Rightarrow>
        if \<not> terminated s ! idx then
          (case py_index actions idx of
             Inl e \<Rightarrow> Inl e
           | Inr a \<Rightarrow>
               Inr (s\<lparr> envs_step := (envs_step s)[idx := envs_step s ! idx + 1],
                       env_total_step := env_total_step s + 1 \<rparr>,
                    sent @ [(idx, CStep a)]))
        else Inr (s, sent))"

text \<open>
  Body of the receiving loop of \<^verbatim>\<open>sync_step\<close>. The reply read from pipe \<open>idx\<close> is the
  worker's answer to the \<^verbatim>\<open>("step", actions[idx])\<close> sent on it by the loop before.
  \<^verbatim>\<open>pop\<close> removes \<^verbatim>\<open>individual_rewards\<close> from the info dict before the dict is used.
\<close>

definition sync_recv ::
  "'a workers \<Rightarrow> 'a list option \<Rightarrow> nat \<Rightarrow> runner \<times> step_data \<times> (nat \<times> info) list
     \<Rightarrow> error + runner \<times> step_data \<times> (nat \<times> info) list" where
  "sync_recv w actions idx st =
     (case st of (s, sd, infos) \<Rightarrow>
        if \<not> terminated s ! idx then
          (case py_index actions idx of
             Inl e \<Rightarrow> Inl e
           | Inr a \<Rightarrow>
               let data = step_reply w idx a in
               (case m_info data ''individual_rewards'' of
                  None \<Rightarrow> Inl KeyError
                | Some ir \<Rightarrow>
                    let info' = (m_info data)(''individual_rewards'' := None);
                        s1 = s\<lparr> episode_lengths :=
                                 (episode_lengths s)[idx := episode_lengths s ! idx + 1],
                               episode_returns :=
                                 (episode_returns s)[idx := episode_returns s ! idx + m_reward data] \<rparr>;
                        (infos', s2) =
                          (if m_terminated data
                           then (let (ti, s') = get_terminated_env_info s1 idx info'
                                 in (infos @ [(idx, ti)], s'))
                           else (infos, s1))
                    in (case (if m_terminated data then map_sum id Not (limit_flag info')
                              else Inr False) of
                          Inl e \<Rightarrow> Inl e
                        | Inr env_terminated \<Rightarrow>
                            Inr (s2\<lparr> terminated := (terminated s2)[idx := env_terminated] \<rparr>,
                                 sd\<lparr> sd_reward := sd_reward sd @ [m_reward data],
                                     sd_individual_rewards :=
                                       sd_individual_rewards sd @ [expand_dims ir],
                                     sd_terminated := sd_terminated sd @ [env_terminated],
                                     sd_state := sd_state sd @ [m_state data],
                                     sd_avail_actions :=
                                       sd_avail_actions sd @ [m_avail_actions data],
                                     sd_obs := sd_obs sd @ [m_obs data] \<rparr>,
                                 infos'))))
        else
          Inr (s\<lparr> envs_step := (envs_step s)[idx := 0] \<rparr>,
               sd\<lparr> sd_state := sd_state sd @ [np_zeros [state_shape (rargs s)]],
                   sd_avail_actions :=
                     sd_avail_actions sd @ [np_ones [n_agents (rargs s), n_actions (rargs s)]],
                   sd_obs := sd_obs sd @ [np_zeros [n_agents (rargs s), obs_shape (rargs s)]],
                   sd_reward := sd_reward sd @ [0],
                   sd_terminated := sd_terminated sd @ [False],
                   sd_individual_rewards :=
                     sd_individual_rewards sd @ [np_zeros [n_agents (rargs s), 1]] \<rparr>,
               infos))"

text \<open>
  \<^verbatim>\<open>sync_step\<close>. Besides the pair the source returns (the step data and the terminal
  records), the result holds the runner after the call and the commands sent. Each
  terminal record is kept together with the index of the worker it was built for, and
  each command with the index of its pipe; the list \<^verbatim>\<open>terminated_env_info\<close> of the source
  is the list of the second components.
\<close>

definition sync_step ::
  "'a workers \<Rightarrow> runner \<Rightarrow> 'a list option
     \<Rightarrow> error + runner \<times> step_data \<times> (nat \<times> info) list \<times> (nat \<times> 'a cmd) list" where
  "sync_step w s actions =
     (let idxs = [0..<env_batch_size s] in
      if list_all (\<lambda>b. b) (terminated s) then
        (let s1 = s\<lparr> envs_step := map (\<lambda>_. 0) (envs_step s) \<rparr>;
             sent = map (\<lambda>idx. (idx, CReset)) idxs;
             sd = fold (sync_reset_recv w s1) idxs empty_step_data
         in Inr (s1\<lparr> terminated := map (\<lambda>_. False) (terminated s1) \<rparr>, sd, [], sent))
      else
        (case for_each (sync_send actions) idxs (s, []) of
           Inl e \<Rightarrow> Inl e
         | Inr (s1, sent) \<Rightarrow>
             (case for_each (sync_recv w actions) idxs (s1, empty_step_data, []) of
                Inl e \<Rightarrow> Inl e
              | Inr (s2, sd, infos) \<Rightarrow> Inr (s2, sd, infos, sent))))"

text \<open>Body of the sending loop of \<^verbatim>\<open>async_step\<close>.\<close>

definition async_send ::
  "'a list option \<Rightarrow> nat \<Rightarrow> runner \<times> (nat \<times> 'a cmd) list
     \<Rightarrow> error + runner \<times> (nat \<times> 'a cmd) list" where
  "async_send actions idx st =
     (case st of (s, sent) \<Rightarrow>
        if \<not> terminated s ! idx then
          (case py_index actions idx of
             Inl e \<Rightarrow> Inl e
           | Inr a \<Rightarrow>
               Inr (s\<lparr> envs_step := (envs_step s)[idx := envs_step s ! idx + 1] \<rparr>,
                    sent @ [(idx, CStep a)]))
        else
          Inr (s\<lparr> envs_step := (envs_step s)[idx := 0] \<rparr>, sent @ [(idx, CReset)]))"

text \<open>
  Body of the receiving loop of \<^verbatim>\<open>async_step\<close>. The reply answers the command the
  sending loop chose from the same flag; here the info dict keeps \<^verbatim>\<open>individual_rewards\<close>.
\<close>

definition async_recv ::
  "'a workers \<Rightarrow> 'a list option \<Rightarrow> nat \<Rightarrow> runner \<times> step_data \<times> (nat \<times> info) list
     \<Rightarrow> error + runner \<times> step_data \<times> (nat \<times> info) list" where
  "async_recv w actions idx st =
     (case st of (s0, sd, infos) \<Rightarrow>
        let s = s0\<lparr> env_total_step := env_total_step s0 + 1 \<rparr> in
        if \<not> terminated s ! idx then
          (case py_index actions idx of
             Inl e \<Rightarrow> Inl e
           | Inr a \<Rightarrow>
               let data = step_reply w idx a in
               (case m_info data ''individual_rewards'' of
                  None \<Rightarrow> Inl KeyError
                | Some ir \<Rightarrow>
                    let s1 = s\<lparr> episode_lengths :=
                                 (episode_lengths s)[idx := episode_lengths s ! idx + 1],
                               episode_returns :=
                                 (episode_returns s)[idx := episode_returns s ! idx + m_reward data] \<rparr>;
                        (infos', s2) =
                          (if m_terminated data
                           then (let (ti, s') = get_terminated_env_info s1 idx (m_info data)
                                 in (infos @ [(idx, ti)], s'))
                           else (infos, s1))
                    in (case (if m_terminated data then map_sum id Not (limit_flag (m_info data))
                              else Inr False) of
                          Inl e \<Rightarrow> Inl e
                        | Inr env_terminated \<Rightarrow>
                            Inr (s2\<lparr> terminated := (terminated s2)[idx := env_terminated] \<rparr>,
                                 sd\<lparr> sd_reward := sd_reward sd @ [m_reward data],
                                     sd_individual_rewards :=
                                       sd_individual_rewards sd @ [expand_dims ir],
                                     sd_terminated := sd_terminated sd @ [env_terminated],
                                     sd_state := sd_state sd @ [m_state data],
                                     sd_avail_actions :=
                                       sd_avail_actions sd @ [m_avail_actions data],
                                     sd_obs := sd_obs sd @ [m_obs data] \<rparr>,
                                 infos'))))
        else
          (let data = reset_reply w idx in
           Inr (s\<lparr> terminated := (terminated s)[idx := False] \<rparr>,
                sd\<lparr> sd_reward := sd_reward sd @ [0],
                    sd_terminated := sd_terminated sd @ [False],
                    sd_individual_rewards :=
                      sd_individual_rewards sd @ [np_zeros [n_agents (rargs s), 1]],
                    sd_state := sd_state sd @ [r_state data],
                    sd_avail_actions := sd_avail_actions sd @ [r_avail_actions data],
                    sd_obs := sd_obs sd @ [r_obs data] \<rparr>,
                infos)))"

definition async_step ::
  "'a workers \<Rightarrow> runner \<Rightarrow> 'a list option
     \<Rightarrow> error + runner \<times> step_data \<times> (nat \<times> info) list \<times> (nat \<times> 'a cmd) list" where
  "async_step w s actions =
     (let idxs = [0..<env_batch_size s] in
      case for_each (async_send actions) idxs (s, []) of
        Inl e \<Rightarrow> Inl e
      | Inr (s1, sent) \<Rightarrow>
          (case for_each (async_recv w actions) idxs (s1, empty_step_data, []) of
             Inl e \<Rightarrow> Inl e
           | Inr (s2, sd, infos) \<Rightarrow> Inr (s2, sd, infos, sent)))"

text \<open>\<^verbatim>\<open>self.step\<close>, bound by \<^verbatim>\<open>_init_env\<close> from \<^verbatim>\<open>args.asynchronous_env\<close>.\<close>

definition step ::
  "'a workers \<Rightarrow> runner \<Rightarrow> 'a list option
     \<Rightarrow> error + runner \<times> step_data \<times> (nat \<times> info) list \<times> (nat \<times> 'a cmd) list" where
  "step w s actions =
     (if asynchronous_env (rargs s) then async_step w s actions else sync_step w s actions)"

text \<open>What no loop of the step functions changes: the configuration and the array sizes.\<close>

definition same_config :: "runner \<Rightarrow> runner \<Rightarrow> bool" where
  "same_config s s' \<longleftrightarrow>
     rargs s' = rargs s \<and> evaluate s' = evaluate s \<and> env_batch_size s' = env_batch_size s \<and>
     live_env s' = live_env s \<and>
     length (terminated s') = length (terminated s) \<and>
     length (envs_step s') = length (envs_step s) \<and>
     length (episode_returns s') = length (episode_returns s) \<and>
     length (episode_lengths s') = length (episode_lengths s)"

text \<open>Entry-wise concatenation of two step data dicts.\<close>

definition sd_append :: "step_data \<Rightarrow> step_data \<Rightarrow> step_data" where
  "sd_append a b =
     \<lparr> sd_state = sd_state a @ sd_state b,
       sd_avail_actions = sd_avail_actions a @ sd_avail_actions b,
       sd_obs = sd_obs a @ sd_obs b,
       sd_reward = sd_reward a @ sd_reward b,
       sd_individual_rewards = sd_individual_rewards a @ sd_individual_rewards b,
       sd_terminated = sd_terminated a @ sd_terminated b \<rparr>"

section \<open>Concrete inputs\<close>

text \<open>
  A batch of two workers whose simulation ends the episode when it is given action 1.
  Worker 0 reports the end as an episode-limit cutoff, worker 1 as a natural end.
\<close>

definition ex_args :: args where
  "ex_args =
     \<lparr> cfg_env_batch_size = 2, cfg_evaluate_batch_size = 1, asynchronous_env = False,
       n_agents = 2, n_actions = 3, state_shape = 2, obs_shape = 1 \<rparr>"

definition ex_workers :: "nat workers" where
  "ex_workers =
     \<lparr> step_reply = (\<lambda>i a.
         \<lparr> m_state = Nd [Scalar 1, Scalar 2],
           m_avail_actions = Nd [Nd [Scalar 1, Scalar 0, Scalar 1], Nd [Scalar 1, Scalar 1, Scalar 0]],
           m_obs = Nd [Nd [Scalar 3], Nd [Scalar 4]],
           m_reward = 2,
           m_terminated = (a = 1),
           m_info = (if i = 0
                     then [''individual_rewards'' \<mapsto> Nd [Scalar 1, Scalar 1],
                           ''episode_limit'' \<mapsto> Scalar 1]
                     else [''individual_rewards'' \<mapsto> Nd [Scalar 1, Scalar 1]]) \<rparr>),
       reset_reply = (\<lambda>i.
         \<lparr> r_state = Nd [Scalar 0, Scalar 0],
           r_avail_actions = Nd [Nd [Scalar 1, Scalar 1, Scalar 1], Nd [Scalar 1, Scalar 1, Scalar 1]],
           r_obs = Nd [Nd [Scalar 0], Nd [Scalar 0]] \<rparr>) \<rparr>"

text \<open>
  The runner in synchronous mode after the full-batch reset and three steps: with both
  workers still running (\<open>ex_running\<close>), and with worker 1 terminated by the third step
  (\<open>ex_mixed\<close>).
\<close>

definition ex_running :: runner where
  "ex_running =
     \<lparr> rargs = ex_args, evaluate = False, env_batch_size = 2, env_total_step = 6,
       terminated = [False, False], envs_step = [3, 3],
       episode_returns = [6, 6], episode_lengths = [3, 3], live_env = None \<rparr>"

definition ex_mixed :: runner where
  "ex_mixed =
     \<lparr> rargs = ex_args, evaluate = False, env_batch_size = 2, env_total_step = 6,
       terminated = [False, True], envs_step = [3, 3],
       episode_returns = [6, 0], episode_lengths = [3, 0], live_env = None \<rparr>"

text \<open>
  The same in asynchronous mode, where the first call resets both workers and counts
  their two replies, and an env info with a key that the counters use.
\<close>

definition ex_async_running :: runner where
  "ex_async_running =
     ex_running\<lparr> rargs := ex_args\<lparr> asynchronous_env := True \<rparr>, env_total_step := 8 \<rparr>"

definition ex_async_mixed :: runner where
  "ex_async_mixed =
     ex_mixed\<lparr> rargs := ex_args\<lparr> asynchronous_env := True \<rparr>, env_total_step := 8 \<rparr>"

definition ex_env_info :: info where
  "ex_env_info = [''episode_length'' \<mapsto> Scalar 5, ''battles_won'' \<mapsto> Scalar 1]"

section \<open>Construction and \<^verbatim>\<open>reset_all_env\<close>\<close>

lemma runner_inv_init_env: "runner_inv (init_env a ev)"
  by (simp add: runner_inv_def init_env_def Let_def)

lemma runner_inv_reset_all_env: "runner_inv s \<Longrightarrow> runner_inv (reset_all_env s)"
  by (simp add: runner_inv_def reset_all_env_def)

lemma runner_inv_ex_running: "runner_inv ex_running"
  by (simp add: runner_inv_def ex_running_def)

lemma runner_inv_ex_mixed: "runner_inv ex_mixed"
  by (simp add: runner_inv_def ex_mixed_def)

lemma runner_inv_ex_async_running: "runner_inv ex_async_running"
  by (simp add: runner_inv_def ex_async_running_def ex_running_def)

lemma runner_inv_ex_async_mixed: "runner_inv ex_async_mixed"
  by (simp add: runner_inv_def ex_async_mixed_def ex_mixed_def)

text \<open>
  Claim C9, as first stated: after \<^verbatim>\<open>reset_all_env\<close> the live-worker counter is zero. It is
  not: for a batch of two workers \<open>live_env\<close> is 2.
\<close>

theorem reset_all_env_live_env_counterexample:
  "live_env (reset_all_env (init_env ex_args False)) = Some 2
   \<and> live_env (reset_all_env (init_env ex_args False)) \<noteq> Some 0"
  by (simp add: reset_all_env_def init_env_def ex_args_def)

text \<open>
  Claim C9, amended: after \<^verbatim>\<open>reset_all_env\<close> every worker is marked terminated (so the test
  \<^verbatim>\<open>np.all(self.terminated)\<close> of the next \<^verbatim>\<open>sync_step\<close> succeeds), every per-worker step
  counter is zero, the stored live-worker counter \<open>live_env\<close> is the batch size, and
  \<^verbatim>\<open>alive_env()\<close>, the number of workers not marked terminated, is zero.
\<close>

theorem reset_all_env_state:
  "terminated (reset_all_env s) = replicate (env_batch_size s) True
   \<and> list_all (\<lambda>b. b) (terminated (reset_all_env s))
   \<and> envs_step (reset_all_env s) = replicate (env_batch_size s) 0
   \<and> live_env (reset_all_env s) = Some (env_batch_size s)
   \<and> alive_env (reset_all_env s) = 0"
  by (simp add: reset_all_env_def alive_env_def list_all_iff)

section \<open>Terminal episode records\<close>

lemma radd_zero: "radd 0 v = v"
  by (induction v) (simp_all add: map_idI)

lemma get_terminated_env_info_eq:
  "get_terminated_env_info s idx e =
     (terminal_record (evaluate s) (episode_lengths s ! idx) (episode_returns s ! idx) e,
      s\<lparr> episode_lengths := (episode_lengths s)[idx := 0],
         episode_returns := (episode_returns s)[idx := 0] \<rparr>)"
  by (simp add: get_terminated_env_info_def terminal_record_def Let_def)

lemma terminal_record_plain:
  "terminal_record False len ret env_info k =
     (if k = ''episode_length''
      then Some (radd (real_of_int len) (dict_get env_info k (Scalar 0)))
      else if k = ''episode_return''
      then Some (radd ret (dict_get env_info k (Scalar 0)))
      else env_info k)"
  by (auto simp: terminal_record_def Let_def map_add_def dict_get_def radd_zero
           split: option.splits)

lemma prefix_keys_test:
  "prefix_keys ''test_'' d k = (if take 5 k = ''test_'' then d (drop 5 k) else None)"
  by (simp add: prefix_keys_def eval_nat_numeral)

lemma terminal_record_prefixed:
  "terminal_record True len ret env_info =
     prefix_keys ''test_'' (terminal_record False len ret env_info)"
  by (simp add: terminal_record_def Let_def)

lemma terminal_record_test:
  "terminal_record True len ret env_info k =
     (if take 5 k = ''test_'' then terminal_record False len ret env_info (drop 5 k) else None)"
  by (simp only: terminal_record_prefixed prefix_keys_test)

text \<open>
  Claim C3, as first stated: on a key present in the counters and in the env info, the
  env-supplied value wins. With an episode length of 3 and an env info that maps
  \<^verbatim>\<open>episode_length\<close> to 5, the record holds 8, not 5.
\<close>

theorem get_terminated_env_info_counterexample:
  "ex_env_info ''episode_length'' = Some (Scalar 5)
   \<and> episode_lengths ex_running ! 0 = 3
   \<and> fst (get_terminated_env_info ex_running 0 ex_env_info) ''episode_length'' = Some (Scalar 8)
   \<and> fst (get_terminated_env_info ex_running 0 ex_env_info) ''episode_length''
       \<noteq> ex_env_info ''episode_length''"
  by (simp add: get_terminated_env_info_eq terminal_record_plain ex_running_def dict_get_def
        ex_env_info_def)

text \<open>
  Claim C3, amended: the record of worker \<open>i\<close> maps \<^verbatim>\<open>episode_length\<close> and \<^verbatim>\<open>episode_return\<close>
  to the worker's counter plus the env-supplied value of that key (plus 0 when the env
  info has no such key), and every other key of the env info to the env-supplied value;
  it has no further key. In evaluation mode the same values are stored under the keys
  prefixed with \<^verbatim>\<open>test_\<close>, and under no other key.
\<close>

theorem get_terminated_env_info_sums:
  assumes "runner_inv s" and "i < env_batch_size s"
  shows "fst (get_terminated_env_info s i env_info) (if evaluate s then ''test_'' @ k else k) =
           (if k = ''episode_length''
            then Some (radd (real_of_int (episode_lengths s ! i))
                            (dict_get env_info ''episode_length'' (Scalar 0)))
            else if k = ''episode_return''
            then Some (radd (episode_returns s ! i)
                            (dict_get env_info ''episode_return'' (Scalar 0)))
            else env_info k)
         \<and> (evaluate s \<and> take 5 k \<noteq> ''test_''
              \<longrightarrow> fst (get_terminated_env_info s i env_info) k = None)"
  by (simp add: get_terminated_env_info_eq terminal_record_test terminal_record_plain)

theorem get_terminated_env_info_sums_witness:
  "runner_inv ex_running \<and> (0::nat) < env_batch_size ex_running
   \<and> fst (get_terminated_env_info ex_running 0 ex_env_info) ''episode_length'' = Some (Scalar 8)
   \<and> fst (get_terminated_env_info ex_running 0 ex_env_info) ''battles_won'' = Some (Scalar 1)"
  using get_terminated_env_info_sums [OF runner_inv_ex_running, of 0 ex_env_info
          "''episode_length''"]
        get_terminated_env_info_sums [OF runner_inv_ex_running, of 0 ex_env_info
          "''battles_won''"]
        runner_inv_ex_running
  by (simp add: ex_running_def dict_get_def ex_env_info_def)

section \<open>Loops over the workers\<close>

text \<open>
  A loop over distinct indices whose body touches, per index, only that index's part
  (\<open>view\<close>) of the state: the final view of every index is the body's effect \<open>F\<close> on the
  initial view, every visited index satisfies what a successful body implies (\<open>K\<close>), and
  the accumulated output is built from the initial views.
\<close>

lemma for_each_pointwise:
  assumes run: "for_each body is st = Inr st'"
    and dist: "distinct is"
    and I0: "I st"
    and step: "\<And>i t t'. i \<in> set is \<Longrightarrow> I t \<Longrightarrow> body i t = Inr t' \<Longrightarrow>
                 I t' \<and> (\<forall>j. j \<noteq> i \<longrightarrow> view j t' = view j t) \<and> view i t' = F i (view i t)
                 \<and> K i (view i t) \<and> out t' = app (out t) (G i (view i t))"
  shows "I st' \<and> (\<forall>j. view j st' = (if j \<in> set is then F j (view j st) else view j st))
         \<and> (\<forall>i\<in>set is. K i (view i st))
         \<and> out st' = foldl app (out st) (map (\<lambda>i. G i (view i st)) is)"
  using run dist I0 step
proof (induction "is" arbitrary: st)
  case Nil
  then show ?case by simp
next
  case (Cons i "is")
  from Cons.prems(1) obtain t where b: "body i st = Inr t" and r: "for_each body is t = Inr st'"
    by (auto split: sum.splits)
  have s1: "I t \<and> (\<forall>j. j \<noteq> i \<longrightarrow> view j t = view j st) \<and> view i t = F i (view i st)
                 \<and> K i (view i st) \<and> out t = app (out st) (G i (view i st))"
    using Cons.prems(4)[of i st t] Cons.prems(3) b by simp
  have d: "distinct is" and ni: "i \<notin> set is" using Cons.prems(2) by auto
  have st: "I u' \<and> (\<forall>k. k \<noteq> j \<longrightarrow> view k u' = view k u) \<and> view j u' = F j (view j u)
                 \<and> K j (view j u) \<and> out u' = app (out u) (G j (view j u))"
    if "j \<in> set is" "I u" "body j u = Inr u'" for j u u'
    by (rule Cons.prems(4)) (use that in simp_all)
  have It: "I t" using s1 by simp
  have IH: "I st' \<and> (\<forall>j. view j st' = (if j \<in> set is then F j (view j t) else view j t))
         \<and> (\<forall>i\<in>set is. K i (view i t))
         \<and> out st' = foldl app (out t) (map (\<lambda>i. G i (view i t)) is)"
    by (rule Cons.IH[OF r d It st])
  have eqv: "\<And>j. j \<in> set is \<Longrightarrow> view j t = view j st" using s1 ni by auto
  have m: "map (\<lambda>i. G i (view i t)) is = map (\<lambda>i. G i (view i st)) is"
    using eqv by simp
  show ?case
    using IH s1 ni eqv m by auto
qed

lemma filter_concat_tagged:
  assumes "\<And>j p. p \<in> set (G j) \<Longrightarrow> fst p = j" "distinct ks"
  shows "filter (\<lambda>p. fst p = i) (concat (map G ks)) = (if i \<in> set ks then G i else [])"
  using assms(2)
proof (induction ks)
  case Nil
  then show ?case by simp
next
  case (Cons j js)
  have a: "filter (\<lambda>p. fst p = i) (G j) = (if i = j then G j else [])"
    using assms(1)[of _ j] by (auto simp: filter_empty_conv intro: filter_True)
  show ?case using Cons a by auto
qed

lemma concat_singletons:
  "\<forall>j\<in>set is. length (f j) = 1 \<Longrightarrow> concat (map f is) = map (\<lambda>j. hd (f j)) is"
proof (induction "is")
  case Nil
  then show ?case by simp
next
  case (Cons j js)
  then obtain x where "f j = [x]" by (cases "f j") auto
  then show ?case using Cons by simp
qed

lemma foldl_sd_append:
  "foldl (\<lambda>acc e. (sd_append (fst acc) (fst e), snd acc @ snd e)) (sd0, inf0) es =
     (\<lparr> sd_state = sd_state sd0 @ concat (map (\<lambda>e. sd_state (fst e)) es),
        sd_avail_actions = sd_avail_actions sd0 @ concat (map (\<lambda>e. sd_avail_actions (fst e)) es),
        sd_obs = sd_obs sd0 @ concat (map (\<lambda>e. sd_obs (fst e)) es),
        sd_reward = sd_reward sd0 @ concat (map (\<lambda>e. sd_reward (fst e)) es),
        sd_individual_rewards =
          sd_individual_rewards sd0 @ concat (map (\<lambda>e. sd_individual_rewards (fst e)) es),
        sd_terminated = sd_terminated sd0 @ concat (map (\<lambda>e. sd_terminated (fst e)) es) \<rparr>,
      inf0 @ concat (map snd es))"
  by (induction es arbitrary: sd0 inf0) (simp_all add: sd_append_def)

lemma sync_send_effect:
  assumes "sync_send actions idx (s, sent) = Inr r"
  shows "(\<not> terminated s ! idx \<longrightarrow> (\<exists>a. py_index actions idx = Inr a)) \<and>
         r = (if terminated s ! idx then (s, sent)
              else (s\<lparr> envs_step := (envs_step s)[idx := envs_step s ! idx + 1],
                       env_total_step := env_total_step s + 1 \<rparr>,
                    sent @ [(idx, CStep (projr (py_index actions idx)))]))"
  using assms by (auto simp: sync_send_def split: sum.splits if_splits)

lemma sync_send_loop:
  assumes run: "for_each (sync_send actions) is (s, sent) = Inr (s', sent')"
    and dist: "distinct is"
  shows "same_config s s'"
    and "terminated s' = terminated s"
    and "episode_lengths s' = episode_lengths s"
    and "episode_returns s' = episode_returns s"
    and "\<forall>i\<in>set is. \<not> terminated s ! i \<longrightarrow> (\<exists>a. py_index actions i = Inr a)"
    and "sent' = sent @ concat (map (\<lambda>i. if terminated s ! i then [] else [(i, CStep (projr (py_index actions i)))]) is)"
    and "env_total_step s' = env_total_step s + int (length (filter (\<lambda>i. \<not> terminated s ! i) is))"
proof -
  define I where "I = (\<lambda>t :: runner \<times> (nat \<times> 'a cmd) list.
      same_config s (fst t) \<and> terminated (fst t) = terminated s \<and>
      episode_lengths (fst t) = episode_lengths s \<and> episode_returns (fst t) = episode_returns s)"
  define view where "view = (\<lambda>(j::nat) (t :: runner \<times> (nat \<times> 'a cmd) list). ())"
  define F where "F = (\<lambda>(i::nat) (v :: unit). v)"
  define K where "K = (\<lambda>i (v :: unit). \<not> terminated s ! i \<longrightarrow> (\<exists>a. py_index actions i = Inr a))"
  define G where "G = (\<lambda>i (v :: unit). if terminated s ! i then [] else [(i, CStep (projr (py_index actions i)))])"
  define out where "out = (\<lambda>t :: runner \<times> (nat \<times> 'a cmd) list. (snd t, env_total_step (fst t)))"
  define app where "app = (\<lambda>(acc :: (nat \<times> 'a cmd) list \<times> int) (e :: (nat \<times> 'a cmd) list). (fst acc @ e, snd acc + int (length e)))"
  have I0: "I (s, sent)" by (simp add: I_def same_config_def)
  have step: "I t' \<and> (\<forall>j. j \<noteq> i \<longrightarrow> view j t' = view j t) \<and> view i t' = F i (view i t)
                 \<and> K i (view i t) \<and> out t' = app (out t) (G i (view i t))"
    if "i \<in> set is" "I t" "sync_send actions i t = Inr t'" for i t t'
  proof -
    obtain u usent where t: "t = (u, usent)" by (cases t)
    have tu: "terminated u = terminated s" using that(2) t by (simp add: I_def)
    note e = sync_send_effect[OF that(3)[unfolded t]]
    show ?thesis
      using e that(2) tu t
      by (cases "terminated s ! i")
         (simp_all add: I_def view_def F_def K_def G_def out_def app_def same_config_def)
  qed
  have main: "I (s', sent') \<and> (\<forall>j. view j (s', sent') = (if j \<in> set is then F j (view j (s, sent)) else view j (s, sent)))
         \<and> (\<forall>i\<in>set is. K i (view i (s, sent)))
         \<and> out (s', sent') = foldl app (out (s, sent)) (map (\<lambda>i. G i (view i (s, sent))) is)"
    by (rule for_each_pointwise[where body = "sync_send actions" and I = I and view = view
          and F = F and K = K and out = out and app = app and G = G, OF run dist I0])
       (rule step)
  show "same_config s s'" "terminated s' = terminated s" "episode_lengths s' = episode_lengths s"
    "episode_returns s' = episode_returns s"
    using main by (simp_all add: I_def)
  show "\<forall>i\<in>set is. \<not> terminated s ! i \<longrightarrow> (\<exists>a. py_index actions i = Inr a)"
    using main by (simp add: K_def)
  have fl: "foldl app acc es = (fst acc @ concat es, snd acc + int (length (concat es)))" for acc es
    by (induction es arbitrary: acc) (simp_all add: app_def)
  have o: "(sent', env_total_step s') = foldl app (sent, env_total_step s) (map (\<lambda>i. G i ()) is)"
    using main by (simp add: out_def view_def)
  show "sent' = sent @ concat (map (\<lambda>i. if terminated s ! i then [] else [(i, CStep (projr (py_index actions i)))]) is)"
    using o by (simp add: fl G_def)
  have "length (concat (map (\<lambda>i. G i ()) is)) = length (filter (\<lambda>i. \<not> terminated s ! i) is)"
    by (induction "is") (simp_all add: G_def)
  then show "env_total_step s' = env_total_step s + int (length (filter (\<lambda>i. \<not> terminated s ! i) is))"
    using o by (simp add: fl)
qed

lemma sync_recv_dead:
  "terminated s ! idx \<Longrightarrow>
   sync_recv w actions idx (s, sd, infos) =
     Inr (s\<lparr> envs_step := (envs_step s)[idx := 0] \<rparr>,
          sd\<lparr> sd_state := sd_state sd @ [np_zeros [state_shape (rargs s)]],
              sd_avail_actions :=
                sd_avail_actions sd @ [np_ones [n_agents (rargs s), n_actions (rargs s)]],
              sd_obs := sd_obs sd @ [np_zeros [n_agents (rargs s), obs_shape (rargs s)]],
              sd_reward := sd_reward sd @ [0],
              sd_terminated := sd_terminated sd @ [False],
              sd_individual_rewards :=
                sd_individual_rewards sd @ [np_zeros [n_agents (rargs s), 1]] \<rparr>,
          infos)"
  by (simp add: sync_recv_def)

lemma sync_recv_live:
  assumes "\<not> terminated s ! idx"
    and "sync_recv w actions idx (s, sd, infos) = Inr r"
    and "idx < length (episode_lengths s)" "idx < length (episode_returns s)"
  shows "\<exists>a ir. py_index actions idx = Inr a \<and>
           m_info (step_reply w idx a) ''individual_rewards'' = Some ir \<and>
           (let d = step_reply w idx a;
                info' = (m_info d)(''individual_rewards'' := None);
                len = episode_lengths s ! idx + 1;
                ret = episode_returns s ! idx + m_reward d;
                env_terminated = (m_terminated d \<and> limit_flag info' = Inr False)
            in (m_terminated d \<longrightarrow> (\<exists>b. limit_flag info' = Inr b)) \<and>
               r = (s\<lparr> episode_lengths := (episode_lengths s)[idx := if m_terminated d then 0 else len],
                       episode_returns := (episode_returns s)[idx := if m_terminated d then 0 else ret],
                       terminated := (terminated s)[idx := env_terminated] \<rparr>,
                    sd\<lparr> sd_reward := sd_reward sd @ [m_reward d],
                        sd_individual_rewards := sd_individual_rewards sd @ [expand_dims ir],
                        sd_terminated := sd_terminated sd @ [env_terminated],
                        sd_state := sd_state sd @ [m_state d],
                        sd_avail_actions := sd_avail_actions sd @ [m_avail_actions d],
                        sd_obs := sd_obs sd @ [m_obs d] \<rparr>,
                    infos @ (if m_terminated d
                             then [(idx, terminal_record (evaluate s) len ret info')] else [])))"
proof -
  from assms obtain a where a: "py_index actions idx = Inr a"
    by (auto simp: sync_recv_def split: sum.splits)
  define d where "d = step_reply w idx a"
  from assms a obtain ir where ir: "m_info d ''individual_rewards'' = Some ir"
    by (auto simp: sync_recv_def d_def Let_def split: option.splits)
  define info' where "info' = (m_info d)(''individual_rewards'' := None)"
  show ?thesis
  proof (cases "m_terminated d")
    case False
    with assms a ir show ?thesis
      by (simp add: sync_recv_def d_def [symmetric] Let_def)
  next
    case True
    with assms a ir obtain b where b: "limit_flag info' = Inr b"
      by (cases "limit_flag info'")
         (simp_all add: sync_recv_def d_def [symmetric] info'_def [symmetric] Let_def
            get_terminated_env_info_eq)
    with True assms a ir show ?thesis
      by (simp add: sync_recv_def d_def [symmetric] info'_def [symmetric] Let_def
            get_terminated_env_info_eq)
  qed
qed

lemma sync_recv_loop:
  assumes run: "for_each (sync_recv w actions) [0..<n] (s, empty_step_data, []) = Inr (s', sd, infos)"
    and len: "length (terminated s) = n" "length (episode_lengths s) = n"
             "length (episode_returns s) = n"
  shows "same_config s s' \<and> env_total_step s' = env_total_step s \<and>
         length (sd_state sd) = n \<and> length (sd_avail_actions sd) = n \<and>
         length (sd_obs sd) = n \<and> length (sd_reward sd) = n \<and>
         length (sd_individual_rewards sd) = n \<and> length (sd_terminated sd) = n"
    and "\<And>i. i < n \<Longrightarrow> terminated s ! i \<Longrightarrow>
           terminated s' ! i \<and> episode_lengths s' ! i = episode_lengths s ! i \<and>
           episode_returns s' ! i = episode_returns s ! i \<and>
           filter (\<lambda>p. fst p = i) infos = [] \<and>
           sd_state sd ! i = np_zeros [state_shape (rargs s)] \<and>
           sd_avail_actions sd ! i = np_ones [n_agents (rargs s), n_actions (rargs s)] \<and>
           sd_obs sd ! i = np_zeros [n_agents (rargs s), obs_shape (rargs s)] \<and>
           sd_reward sd ! i = 0 \<and> sd_terminated sd ! i = False \<and>
           sd_individual_rewards sd ! i = np_zeros [n_agents (rargs s), 1]"
    and "\<And>i. i < n \<Longrightarrow> \<not> terminated s ! i \<Longrightarrow>
           \<exists>a ir. py_index actions i = Inr a \<and>
             m_info (step_reply w i a) ''individual_rewards'' = Some ir \<and>
             (let d = step_reply w i a;
                  info' = (m_info d)(''individual_rewards'' := None);
                  len = episode_lengths s ! i + 1;
                  ret = episode_returns s ! i + m_reward d;
                  env_terminated = (m_terminated d \<and> limit_flag info' = Inr False)
              in (m_terminated d \<longrightarrow> (\<exists>b. limit_flag info' = Inr b)) \<and>
                 terminated s' ! i = env_terminated \<and>
                 episode_lengths s' ! i = (if m_terminated d then 0 else len) \<and>
                 episode_returns s' ! i = (if m_terminated d then 0 else ret) \<and>
                 filter (\<lambda>p. fst p = i) infos =
                   (if m_terminated d
                    then [(i, terminal_record (evaluate s) len ret info')] else []) \<and>
                 sd_reward sd ! i = m_reward d \<and>
                 sd_individual_rewards sd ! i = expand_dims ir \<and>
                 sd_terminated sd ! i = env_terminated \<and>
                 sd_state sd ! i = m_state d \<and>
                 sd_avail_actions sd ! i = m_avail_actions d \<and>
                 sd_obs sd ! i = m_obs d)"
proof -
  define D where "D = (\<lambda>i. step_reply w i (projr (py_index actions i)))"
  define inf where "inf = (\<lambda>i. (m_info (D i))(''individual_rewards'' := None))"
  define et where "et = (\<lambda>i. m_terminated (D i) \<and> limit_flag (inf i) = Inr False)"
  define I where "I = (\<lambda>t :: runner \<times> step_data \<times> (nat \<times> info) list.
      same_config s (fst t) \<and> env_total_step (fst t) = env_total_step s)"
  define view where "view = (\<lambda>j (t :: runner \<times> step_data \<times> (nat \<times> info) list).
      (terminated (fst t) ! j, episode_lengths (fst t) ! j, episode_returns (fst t) ! j))"
  define F where "F = (\<lambda>i (v :: bool \<times> int \<times> real).
      if fst v then v
      else (et i, if m_terminated (D i) then 0 else fst (snd v) + 1,
            if m_terminated (D i) then 0 else snd (snd v) + m_reward (D i)))"
  define K where "K = (\<lambda>i (v :: bool \<times> int \<times> real).
      \<not> fst v \<longrightarrow> (\<exists>a. py_index actions i = Inr a) \<and>
        (\<exists>ir. m_info (D i) ''individual_rewards'' = Some ir) \<and>
        (m_terminated (D i) \<longrightarrow> (\<exists>b. limit_flag (inf i) = Inr b)))"
  define G where "G = (\<lambda>i (v :: bool \<times> int \<times> real).
      if fst v
      then (\<lparr> sd_state = [np_zeros [state_shape (rargs s)]],
              sd_avail_actions = [np_ones [n_agents (rargs s), n_actions (rargs s)]],
              sd_obs = [np_zeros [n_agents (rargs s), obs_shape (rargs s)]],
              sd_reward = [0],
              sd_individual_rewards = [np_zeros [n_agents (rargs s), 1]],
              sd_terminated = [False] \<rparr>, [])
      else (\<lparr> sd_state = [m_state (D i)],
              sd_avail_actions = [m_avail_actions (D i)],
              sd_obs = [m_obs (D i)],
              sd_reward = [m_reward (D i)],
              sd_individual_rewards = [expand_dims (the (m_info (D i) ''individual_rewards''))],
              sd_terminated = [et i] \<rparr>,
            if m_terminated (D i)
            then [(i, terminal_record (evaluate s) (fst (snd v) + 1)
                        (snd (snd v) + m_reward (D i)) (inf i))]
            else []))"
  define out where "out = (\<lambda>t :: runner \<times> step_data \<times> (nat \<times> info) list. snd t)"
  define app where "app = (\<lambda>(acc :: step_data \<times> (nat \<times> info) list)
      (e :: step_data \<times> (nat \<times> info) list). (sd_append (fst acc) (fst e), snd acc @ snd e))"
  have I0: "I (s, empty_step_data, [])" by (simp add: I_def same_config_def)
  have step: "I t' \<and> (\<forall>j. j \<noteq> i \<longrightarrow> view j t' = view j t) \<and> view i t' = F i (view i t)
                 \<and> K i (view i t) \<and> out t' = app (out t) (G i (view i t))"
    if "i \<in> set [0..<n]" "I t" "sync_recv w actions i t = Inr t'" for i t t'
  proof -
    obtain u usd uinf where t: "t = (u, usd, uinf)" by (cases t)
    have cfg: "same_config s u" "env_total_step u = env_total_step s"
      using that(2) t by (simp_all add: I_def)
    have il: "i < length (terminated u)" "i < length (episode_lengths u)"
      "i < length (episode_returns u)"
      using that(1) cfg(1) len by (simp_all add: same_config_def)
    show ?thesis
    proof (cases "terminated u ! i")
      case True
      have "t' = (u\<lparr> envs_step := (envs_step u)[i := 0] \<rparr>,
          usd\<lparr> sd_state := sd_state usd @ [np_zeros [state_shape (rargs u)]],
              sd_avail_actions :=
                sd_avail_actions usd @ [np_ones [n_agents (rargs u), n_actions (rargs u)]],
              sd_obs := sd_obs usd @ [np_zeros [n_agents (rargs u), obs_shape (rargs u)]],
              sd_reward := sd_reward usd @ [0],
              sd_terminated := sd_terminated usd @ [False],
              sd_individual_rewards :=
                sd_individual_rewards usd @ [np_zeros [n_agents (rargs u), 1]] \<rparr>,
          uinf)"
        using that(3) sync_recv_dead[OF True, of w actions usd uinf] t by simp
      then show ?thesis using True cfg t
        by (simp add: I_def view_def F_def K_def G_def out_def app_def same_config_def
              sd_append_def)
    next
      case False
      from sync_recv_live[OF False that(3)[unfolded t] il(2) il(3)]
      obtain a ir where a: "py_index actions i = Inr a"
        and ir: "m_info (step_reply w i a) ''individual_rewards'' = Some ir"
        and rest: "(let d = step_reply w i a;
                info' = (m_info d)(''individual_rewards'' := None);
                len = episode_lengths u ! i + 1;
                ret = episode_returns u ! i + m_reward d;
                env_terminated = (m_terminated d \<and> limit_flag info' = Inr False)
            in (m_terminated d \<longrightarrow> (\<exists>b. limit_flag info' = Inr b)) \<and>
               t' = (u\<lparr> episode_lengths := (episode_lengths u)[i := if m_terminated d then 0 else len],
                       episode_returns := (episode_returns u)[i := if m_terminated d then 0 else ret],
                       terminated := (terminated u)[i := env_terminated] \<rparr>,
                    usd\<lparr> sd_reward := sd_reward usd @ [m_reward d],
                        sd_individual_rewards := sd_individual_rewards usd @ [expand_dims ir],
                        sd_terminated := sd_terminated usd @ [env_terminated],
                        sd_state := sd_state usd @ [m_state d],
                        sd_avail_actions := sd_avail_actions usd @ [m_avail_actions d],
                        sd_obs := sd_obs usd @ [m_obs d] \<rparr>,
                    uinf @ (if m_terminated d
                             then [(i, terminal_record (evaluate u) len ret info')] else [])))"
        by blast
      have Di: "step_reply w i a = D i" using a by (simp add: D_def)
      show ?thesis using False cfg t il a ir rest
        unfolding Di
        by (simp add: Let_def I_def view_def F_def K_def G_def out_def app_def same_config_def
              sd_append_def inf_def et_def)
    qed
  qed
  have main: "I (s', sd, infos) \<and>
      (\<forall>j. view j (s', sd, infos) =
         (if j \<in> set [0..<n] then F j (view j (s, empty_step_data, []))
          else view j (s, empty_step_data, [])))
      \<and> (\<forall>i\<in>set [0..<n]. K i (view i (s, empty_step_data, [])))
      \<and> out (s', sd, infos) =
          foldl app (out (s, empty_step_data, []))
            (map (\<lambda>i. G i (view i (s, empty_step_data, []))) [0..<n])"
    by (rule for_each_pointwise[where body = "sync_recv w actions" and I = I and view = view
          and F = F and K = K and out = out and app = app and G = G, OF run distinct_upt I0])
       (rule step)
  define R where "R = (\<lambda>i. G i (view i (s, empty_step_data, [])))"
  have m1: "same_config s s'" "env_total_step s' = env_total_step s"
    using main by (simp_all add: I_def)
  have m2: "view j (s', sd, infos) = F j (view j (s, empty_step_data, []))" if "j < n" for j
    using main that by simp
  have m3: "K i (view i (s, empty_step_data, []))" if "i < n" for i
    using main that by simp
  have "(sd, infos) = foldl app (empty_step_data, []) (map R [0..<n])"
    using main by (simp add: out_def R_def)
  then have m4: "(sd, infos) =
     (\<lparr> sd_state = concat (map (\<lambda>i. sd_state (fst (R i))) [0..<n]),
        sd_avail_actions = concat (map (\<lambda>i. sd_avail_actions (fst (R i))) [0..<n]),
        sd_obs = concat (map (\<lambda>i. sd_obs (fst (R i))) [0..<n]),
        sd_reward = concat (map (\<lambda>i. sd_reward (fst (R i))) [0..<n]),
        sd_individual_rewards = concat (map (\<lambda>i. sd_individual_rewards (fst (R i))) [0..<n]),
        sd_terminated = concat (map (\<lambda>i. sd_terminated (fst (R i))) [0..<n]) \<rparr>,
      concat (map (\<lambda>i. snd (R i)) [0..<n]))"
    unfolding app_def foldl_sd_append by (simp add: empty_step_data_def comp_def)
  have f1: "sd_state sd = map (\<lambda>i. hd (sd_state (fst (R i)))) [0..<n]"
    using m4 by (simp add: concat_singletons R_def G_def)
  have f2: "sd_avail_actions sd = map (\<lambda>i. hd (sd_avail_actions (fst (R i)))) [0..<n]"
    using m4 by (simp add: concat_singletons R_def G_def)
  have f3: "sd_obs sd = map (\<lambda>i. hd (sd_obs (fst (R i)))) [0..<n]"
    using m4 by (simp add: concat_singletons R_def G_def)
  have f4: "sd_reward sd = map (\<lambda>i. hd (sd_reward (fst (R i)))) [0..<n]"
    using m4 by (simp add: concat_singletons R_def G_def)
  have f5: "sd_individual_rewards sd = map (\<lambda>i. hd (sd_individual_rewards (fst (R i)))) [0..<n]"
    using m4 by (simp add: concat_singletons R_def G_def)
  have f6: "sd_terminated sd = map (\<lambda>i. hd (sd_terminated (fst (R i)))) [0..<n]"
    using m4 by (simp add: concat_singletons R_def G_def)
  have f7: "filter (\<lambda>p. fst p = i) infos = snd (R i)" if "i < n" for i
  proof -
    have "infos = concat (map (\<lambda>i. snd (R i)) [0..<n])" using m4 by simp
    moreover have "\<And>j p. p \<in> set (snd (R j)) \<Longrightarrow> fst p = j"
      by (auto simp: R_def G_def split: if_splits)
    ultimately show ?thesis
      using filter_concat_tagged[where G = "\<lambda>i. snd (R i)" and i = i and ks = "[0..<n]"] that
      by simp
  qed
  show "same_config s s' \<and> env_total_step s' = env_total_step s \<and>
         length (sd_state sd) = n \<and> length (sd_avail_actions sd) = n \<and>
         length (sd_obs sd) = n \<and> length (sd_reward sd) = n \<and>
         length (sd_individual_rewards sd) = n \<and> length (sd_terminated sd) = n"
    using m1 f1 f2 f3 f4 f5 f6 by simp
  show "terminated s' ! i \<and> episode_lengths s' ! i = episode_lengths s ! i \<and>
           episode_returns s' ! i = episode_returns s ! i \<and>
           filter (\<lambda>p. fst p = i) infos = [] \<and>
           sd_state sd ! i = np_zeros [state_shape (rargs s)] \<and>
           sd_avail_actions sd ! i = np_ones [n_agents (rargs s), n_actions (rargs s)] \<and>
           sd_obs sd ! i = np_zeros [n_agents (rargs s), obs_shape (rargs s)] \<and>
           sd_reward sd ! i = 0 \<and> sd_terminated sd ! i = False \<and>
           sd_individual_rewards sd ! i = np_zeros [n_agents (rargs s), 1]"
    if "i < n" "terminated s ! i" for i
  proof -
    have Ri: "R i = (\<lparr> sd_state = [np_zeros [state_shape (rargs s)]],
              sd_avail_actions = [np_ones [n_agents (rargs s), n_actions (rargs s)]],
              sd_obs = [np_zeros [n_agents (rargs s), obs_shape (rargs s)]],
              sd_reward = [0],
              sd_individual_rewards = [np_zeros [n_agents (rargs s), 1]],
              sd_terminated = [False] \<rparr>, [])"
      using that(2) by (simp add: R_def G_def view_def)
    have v: "view i (s', sd, infos) = view i (s, empty_step_data, [])"
      using m2[OF that(1)] that(2) by (simp add: F_def view_def)
    show ?thesis
      using v that f7[OF that(1)] Ri
      by (simp add: f1 f2 f3 f4 f5 f6 view_def)
  qed
  show "\<exists>a ir. py_index actions i = Inr a \<and>
             m_info (step_reply w i a) ''individual_rewards'' = Some ir \<and>
             (let d = step_reply w i a;
                  info' = (m_info d)(''individual_rewards'' := None);
                  len = episode_lengths s ! i + 1;
                  ret = episode_returns s ! i + m_reward d;
                  env_terminated = (m_terminated d \<and> limit_flag info' = Inr False)
              in (m_terminated d \<longrightarrow> (\<exists>b. limit_flag info' = Inr b)) \<and>
                 terminated s' ! i = env_terminated \<and>
                 episode_lengths s' ! i = (if m_terminated d then 0 else len) \<and>
                 episode_returns s' ! i = (if m_terminated d then 0 else ret) \<and>
                 filter (\<lambda>p. fst p = i) infos =
                   (if m_terminated d
                    then [(i, terminal_record (evaluate s) len ret info')] else []) \<and>
                 sd_reward sd ! i = m_reward d \<and>
                 sd_individual_rewards sd ! i = expand_dims ir \<and>
                 sd_terminated sd ! i = env_terminated \<and>
                 sd_state sd ! i = m_state d \<and>
                 sd_avail_actions sd ! i = m_avail_actions d \<and>
                 sd_obs sd ! i = m_obs d)"
    if "i < n" "\<not> terminated s ! i" for i
  proof -
    from m3[OF that(1)] that(2) obtain a ir where a: "py_index actions i = Inr a"
      and ir: "m_info (D i) ''individual_rewards'' = Some ir"
      and lim: "m_terminated (D i) \<longrightarrow> (\<exists>b. limit_flag (inf i) = Inr b)"
      by (auto simp: K_def view_def)
    have Di: "step_reply w i a = D i" using a by (simp add: D_def)
    have v: "view i (s', sd, infos) = F i (view i (s, empty_step_data, []))"
      by (rule m2[OF that(1)])
    have "m_info (step_reply w i a) ''individual_rewards'' = Some ir \<and>
             (let d = step_reply w i a;
                  info' = (m_info d)(''individual_rewards'' := None);
                  len = episode_lengths s ! i + 1;
                  ret = episode_returns s ! i + m_reward d;
                  env_terminated = (m_terminated d \<and> limit_flag info' = Inr False)
              in (m_terminated d \<longrightarrow> (\<exists>b. limit_flag info' = Inr b)) \<and>
                 terminated s' ! i = env_terminated \<and>
                 episode_lengths s' ! i = (if m_terminated d then 0 else len) \<and>
                 episode_returns s' ! i = (if m_terminated d then 0 else ret) \<and>
                 filter (\<lambda>p. fst p = i) infos =
                   (if m_terminated d
                    then [(i, terminal_record (evaluate s) len ret info')] else []) \<and>
                 sd_reward sd ! i = m_reward d \<and>
                 sd_individual_rewards sd ! i = expand_dims ir \<and>
                 sd_terminated sd ! i = env_terminated \<and>
                 sd_state sd ! i = m_state d \<and>
                 sd_avail_actions sd ! i = m_avail_actions d \<and>
                 sd_obs sd ! i = m_obs d)"
      unfolding Di
      using v that ir lim f7[OF that(1)]
      by (simp add: Let_def f1 f2 f3 f4 f5 f6 view_def F_def R_def G_def inf_def et_def)
    with a show ?thesis by blast
  qed
qed

lemma async_send_effect:
  assumes "async_send actions idx (s, sent) = Inr r"
  shows "(\<not> terminated s ! idx \<longrightarrow> (\<exists>a. py_index actions idx = Inr a)) \<and>
         r = (if terminated s ! idx
              then (s\<lparr> envs_step := (envs_step s)[idx := 0] \<rparr>, sent @ [(idx, CReset)])
              else (s\<lparr> envs_step := (envs_step s)[idx := envs_step s ! idx + 1] \<rparr>,
                    sent @ [(idx, CStep (projr (py_index actions idx)))]))"
  using assms by (auto simp: async_send_def split: sum.splits if_splits)

lemma async_send_loop:
  assumes run: "for_each (async_send actions) [0..<n] (s, []) = Inr (s', sent)"
  shows "same_config s s' \<and> terminated s' = terminated s \<and>
         episode_lengths s' = episode_lengths s \<and> episode_returns s' = episode_returns s \<and>
         env_total_step s' = env_total_step s \<and> length sent = n"
    and "\<And>i. i < n \<Longrightarrow> terminated s ! i \<Longrightarrow> sent ! i = (i, CReset)"
    and "\<And>i. i < n \<Longrightarrow> \<not> terminated s ! i \<Longrightarrow>
           \<exists>a. py_index actions i = Inr a \<and> sent ! i = (i, CStep a)"
proof -
  define I where "I = (\<lambda>t :: runner \<times> (nat \<times> 'a cmd) list.
      same_config s (fst t) \<and> terminated (fst t) = terminated s \<and>
      episode_lengths (fst t) = episode_lengths s \<and> episode_returns (fst t) = episode_returns s
      \<and> env_total_step (fst t) = env_total_step s)"
  define view where "view = (\<lambda>(j::nat) (t :: runner \<times> (nat \<times> 'a cmd) list). ())"
  define F where "F = (\<lambda>(i::nat) (v :: unit). v)"
  define K where "K = (\<lambda>i (v :: unit). \<not> terminated s ! i \<longrightarrow> (\<exists>a. py_index actions i = Inr a))"
  define G where "G = (\<lambda>i (v :: unit).
      if terminated s ! i then (i, CReset) else (i, CStep (projr (py_index actions i))))"
  define out where "out = (\<lambda>t :: runner \<times> (nat \<times> 'a cmd) list. snd t)"
  define app where "app = (\<lambda>(acc :: (nat \<times> 'a cmd) list) (e :: nat \<times> 'a cmd). acc @ [e])"
  have I0: "I (s, [])" by (simp add: I_def same_config_def)
  have step: "I t' \<and> (\<forall>j. j \<noteq> i \<longrightarrow> view j t' = view j t) \<and> view i t' = F i (view i t)
                 \<and> K i (view i t) \<and> out t' = app (out t) (G i (view i t))"
    if "i \<in> set [0..<n]" "I t" "async_send actions i t = Inr t'" for i t t'
  proof -
    obtain u usent where t: "t = (u, usent)" by (cases t)
    have tu: "terminated u = terminated s" using that(2) t by (simp add: I_def)
    note e = async_send_effect[OF that(3)[unfolded t]]
    show ?thesis
      using e that(2) tu t
      by (cases "terminated s ! i")
         (simp_all add: I_def view_def F_def K_def G_def out_def app_def same_config_def)
  qed
  have main: "I (s', sent) \<and> (\<forall>j. view j (s', sent) = (if j \<in> set [0..<n] then F j (view j (s, [])) else view j (s, [])))
         \<and> (\<forall>i\<in>set [0..<n]. K i (view i (s, [])))
         \<and> out (s', sent) = foldl app (out (s, [])) (map (\<lambda>i. G i (view i (s, []))) [0..<n])"
    by (rule for_each_pointwise[where body = "async_send actions" and I = I and view = view
          and F = F and K = K and out = out and app = app and G = G, OF run distinct_upt I0])
       (rule step)
  have fl: "foldl app acc es = acc @ es" for acc es
    by (induction es arbitrary: acc) (simp_all add: app_def)
  have o: "sent = map (\<lambda>i. G i ()) [0..<n]"
    using main by (simp add: out_def view_def fl)
  show "same_config s s' \<and> terminated s' = terminated s \<and>
         episode_lengths s' = episode_lengths s \<and> episode_returns s' = episode_returns s \<and>
         env_total_step s' = env_total_step s \<and> length sent = n"
    using main o by (simp add: I_def)
  show "sent ! i = (i, CReset)" if "i < n" "terminated s ! i" for i
    using that o by (simp add: G_def)
  show "\<exists>a. py_index actions i = Inr a \<and> sent ! i = (i, CStep a)"
    if "i < n" "\<not> terminated s ! i" for i
  proof -
    from main that obtain a where "py_index actions i = Inr a" by (auto simp: K_def)
    then show ?thesis using that o by (simp add: G_def)
  qed
qed

lemma async_recv_dead:
  "terminated s ! idx \<Longrightarrow>
   async_recv w actions idx (s, sd, infos) =
     Inr (s\<lparr> env_total_step := env_total_step s + 1,
             terminated := (terminated s)[idx := False] \<rparr>,
          sd\<lparr> sd_reward := sd_reward sd @ [0],
              sd_terminated := sd_terminated sd @ [False],
              sd_individual_rewards :=
                sd_individual_rewards sd @ [np_zeros [n_agents (rargs s), 1]],
              sd_state := sd_state sd @ [r_state (reset_reply w idx)],
              sd_avail_actions := sd_avail_actions sd @ [r_avail_actions (reset_reply w idx)],
              sd_obs := sd_obs sd @ [r_obs (reset_reply w idx)] \<rparr>,
          infos)"
  by (simp add: async_recv_def Let_def)

lemma async_recv_live:
  assumes "\<not> terminated s ! idx"
    and "async_recv w actions idx (s, sd, infos) = Inr r"
    and "idx < length (episode_lengths s)" "idx < length (episode_returns s)"
  shows "\<exists>a ir. py_index actions idx = Inr a \<and>
           m_info (step_reply w idx a) ''individual_rewards'' = Some ir \<and>
           (let d = step_reply w idx a;
                len = episode_lengths s ! idx + 1;
                ret = episode_returns s ! idx + m_reward d;
                env_terminated = (m_terminated d \<and> limit_flag (m_info d) = Inr False)
            in (m_terminated d \<longrightarrow> (\<exists>b. limit_flag (m_info d) = Inr b)) \<and>
               r = (s\<lparr> env_total_step := env_total_step s + 1,
                       episode_lengths := (episode_lengths s)[idx := if m_terminated d then 0 else len],
                       episode_returns := (episode_returns s)[idx := if m_terminated d then 0 else ret],
                       terminated := (terminated s)[idx := env_terminated] \<rparr>,
                    sd\<lparr> sd_reward := sd_reward sd @ [m_reward d],
                        sd_individual_rewards := sd_individual_rewards sd @ [expand_dims ir],
                        sd_terminated := sd_terminated sd @ [env_terminated],
                        sd_state := sd_state sd @ [m_state d],
                        sd_avail_actions := sd_avail_actions sd @ [m_avail_actions d],
                        sd_obs := sd_obs sd @ [m_obs d] \<rparr>,
                    infos @ (if m_terminated d
                             then [(idx, terminal_record (evaluate s) len ret (m_info d))] else [])))"
proof -
  from assms obtain a where a: "py_index actions idx = Inr a"
    by (auto simp: async_recv_def Let_def split: sum.splits)
  define d where "d = step_reply w idx a"
  from assms a obtain ir where ir: "m_info d ''individual_rewards'' = Some ir"
    by (auto simp: async_recv_def d_def Let_def split: option.splits)
  show ?thesis
  proof (cases "m_terminated d")
    case False
    with assms a ir show ?thesis
      by (simp add: async_recv_def d_def [symmetric] Let_def)
  next
    case True
    with assms a ir obtain b where b: "limit_flag (m_info d) = Inr b"
      by (cases "limit_flag (m_info d)")
         (simp_all add: async_recv_def d_def [symmetric] Let_def get_terminated_env_info_eq)
    with True assms a ir show ?thesis
      by (simp add: async_recv_def d_def [symmetric] Let_def get_terminated_env_info_eq)
  qed
qed

lemma async_recv_loop:
  assumes run: "for_each (async_recv w actions) [0..<n] (s, empty_step_data, []) = Inr (s', sd, infos)"
    and len: "length (terminated s) = n" "length (episode_lengths s) = n"
             "length (episode_returns s) = n"
  shows "same_config s s' \<and> env_total_step s' = env_total_step s + int n \<and>
         length (sd_state sd) = n \<and> length (sd_avail_actions sd) = n \<and>
         length (sd_obs sd) = n \<and> length (sd_reward sd) = n \<and>
         length (sd_individual_rewards sd) = n \<and> length (sd_terminated sd) = n"
    and "\<And>i. i < n \<Longrightarrow> terminated s ! i \<Longrightarrow>
           \<not> terminated s' ! i \<and> episode_lengths s' ! i = episode_lengths s ! i \<and>
           episode_returns s' ! i = episode_returns s ! i \<and>
           filter (\<lambda>p. fst p = i) infos = [] \<and>
           sd_reward sd ! i = 0 \<and> sd_terminated sd ! i = False \<and>
           sd_individual_rewards sd ! i = np_zeros [n_agents (rargs s), 1] \<and>
           sd_state sd ! i = r_state (reset_reply w i) \<and>
           sd_avail_actions sd ! i = r_avail_actions (reset_reply w i) \<and>
           sd_obs sd ! i = r_obs (reset_reply w i)"
    and "\<And>i. i < n \<Longrightarrow> \<not> terminated s ! i \<Longrightarrow>
           \<exists>a ir. py_index actions i = Inr a \<and>
             m_info (step_reply w i a) ''individual_rewards'' = Some ir \<and>
             (let d = step_reply w i a;
                  len = episode_lengths s ! i + 1;
                  ret = episode_returns s ! i + m_reward d;
                  env_terminated = (m_terminated d \<and> limit_flag (m_info d) = Inr False)
              in (m_terminated d \<longrightarrow> (\<exists>b. limit_flag (m_info d) = Inr b)) \<and>
                 terminated s' ! i = env_terminated \<and>
                 episode_lengths s' ! i = (if m_terminated d then 0 else len) \<and>
                 episode_returns s' ! i = (if m_terminated d then 0 else ret) \<and>
                 filter (\<lambda>p. fst p = i) infos =
                   (if m_terminated d
                    then [(i, terminal_record (evaluate s) len ret (m_info d))] else []) \<and>
                 sd_reward sd ! i = m_reward d \<and>
                 sd_individual_rewards sd ! i = expand_dims ir \<and>
                 sd_terminated sd ! i = env_terminated \<and>
                 sd_state sd ! i = m_state d \<and>
                 sd_avail_actions sd ! i = m_avail_actions d \<and>
                 sd_obs sd ! i = m_obs d)"
proof -
  define D where "D = (\<lambda>i. step_reply w i (projr (py_index actions i)))"
  define et where "et = (\<lambda>i. m_terminated (D i) \<and> limit_flag (m_info (D i)) = Inr False)"
  define I where "I = (\<lambda>t :: runner \<times> step_data \<times> (nat \<times> info) list.
      same_config s (fst t) \<and>
      env_total_step (fst t) = env_total_step s + int (length (sd_state (fst (snd t)))))"
  define view where "view = (\<lambda>j (t :: runner \<times> step_data \<times> (nat \<times> info) list).
      (terminated (fst t) ! j, episode_lengths (fst t) ! j, episode_returns (fst t) ! j))"
  define F where "F = (\<lambda>i (v :: bool \<times> int \<times> real).
      if fst v then (False, snd v)
      else (et i, if m_terminated (D i) then 0 else fst (snd v) + 1,
            if m_terminated (D i) then 0 else snd (snd v) + m_reward (D i)))"
  define K where "K = (\<lambda>i (v :: bool \<times> int \<times> real).
      \<not> fst v \<longrightarrow> (\<exists>a. py_index actions i = Inr a) \<and>
        (\<exists>ir. m_info (D i) ''individual_rewards'' = Some ir) \<and>
        (m_terminated (D i) \<longrightarrow> (\<exists>b. limit_flag (m_info (D i)) = Inr b)))"
  define G where "G = (\<lambda>i (v :: bool \<times> int \<times> real).
      if fst v
      then (\<lparr> sd_state = [r_state (reset_reply w i)],
              sd_avail_actions = [r_avail_actions (reset_reply w i)],
              sd_obs = [r_obs (reset_reply w i)],
              sd_reward = [0],
              sd_individual_rewards = [np_zeros [n_agents (rargs s), 1]],
              sd_terminated = [False] \<rparr>, [])
      else (\<lparr> sd_state = [m_state (D i)],
              sd_avail_actions = [m_avail_actions (D i)],
              sd_obs = [m_obs (D i)],
              sd_reward = [m_reward (D i)],
              sd_individual_rewards = [expand_dims (the (m_info (D i) ''individual_rewards''))],
              sd_terminated = [et i] \<rparr>,
            if m_terminated (D i)
            then [(i, terminal_record (evaluate s) (fst (snd v) + 1)
                        (snd (snd v) + m_reward (D i)) (m_info (D i)))]
            else []))"
  define out where "out = (\<lambda>t :: runner \<times> step_data \<times> (nat \<times> info) list. snd t)"
  define app where "app = (\<lambda>(acc :: step_data \<times> (nat \<times> info) list)
      (e :: step_data \<times> (nat \<times> info) list). (sd_append (fst acc) (fst e), snd acc @ snd e))"
  have I0: "I (s, empty_step_data, [])" by (simp add: I_def same_config_def empty_step_data_def)
  have step: "I t' \<and> (\<forall>j. j \<noteq> i \<longrightarrow> view j t' = view j t) \<and> view i t' = F i (view i t)
                 \<and> K i (view i t) \<and> out t' = app (out t) (G i (view i t))"
    if "i \<in> set [0..<n]" "I t" "async_recv w actions i t = Inr t'" for i t t'
  proof -
    obtain u usd uinf where t: "t = (u, usd, uinf)" by (cases t)
    have cfg: "same_config s u"
      "env_total_step u = env_total_step s + int (length (sd_state usd))"
      using that(2) t by (simp_all add: I_def)
    have il: "i < length (terminated u)" "i < length (episode_lengths u)"
      "i < length (episode_returns u)"
      using that(1) cfg(1) len by (simp_all add: same_config_def)
    show ?thesis
    proof (cases "terminated u ! i")
      case True
      have "t' = (u\<lparr> env_total_step := env_total_step u + 1,
             terminated := (terminated u)[i := False] \<rparr>,
          usd\<lparr> sd_reward := sd_reward usd @ [0],
              sd_terminated := sd_terminated usd @ [False],
              sd_individual_rewards :=
                sd_individual_rewards usd @ [np_zeros [n_agents (rargs u), 1]],
              sd_state := sd_state usd @ [r_state (reset_reply w i)],
              sd_avail_actions := sd_avail_actions usd @ [r_avail_actions (reset_reply w i)],
              sd_obs := sd_obs usd @ [r_obs (reset_reply w i)] \<rparr>,
          uinf)"
        using that(3) async_recv_dead[OF True, of w actions usd uinf] t by simp
      then show ?thesis using True cfg t il
        by (simp add: I_def view_def F_def K_def G_def out_def app_def same_config_def
              sd_append_def)
    next
      case False
      from async_recv_live[OF False that(3)[unfolded t] il(2) il(3)]
      obtain a ir where a: "py_index actions i = Inr a"
        and ir: "m_info (step_reply w i a) ''individual_rewards'' = Some ir"
        and rest: "(let d = step_reply w i a;
                len = episode_lengths u ! i + 1;
                ret = episode_returns u ! i + m_reward d;
                env_terminated = (m_terminated d \<and> limit_flag (m_info d) = Inr False)
            in (m_terminated d \<longrightarrow> (\<exists>b. limit_flag (m_info d) = Inr b)) \<and>
               t' = (u\<lparr> env_total_step := env_total_step u + 1,
                       episode_lengths := (episode_lengths u)[i := if m_terminated d then 0 else len],
                       episode_returns := (episode_returns u)[i := if m_terminated d then 0 else ret],
                       terminated := (terminated u)[i := env_terminated] \<rparr>,
                    usd\<lparr> sd_reward := sd_reward usd @ [m_reward d],
                        sd_individual_rewards := sd_individual_rewards usd @ [expand_dims ir],
                        sd_terminated := sd_terminated usd @ [env_terminated],
                        sd_state := sd_state usd @ [m_state d],
                        sd_avail_actions := sd_avail_actions usd @ [m_avail_actions d],
                        sd_obs := sd_obs usd @ [m_obs d] \<rparr>,
                    uinf @ (if m_terminated d
                             then [(i, terminal_record (evaluate u) len ret (m_info d))] else [])))"
        by blast
      have Di: "step_reply w i a = D i" using a by (simp add: D_def)
      show ?thesis using False cfg t il a ir rest
        unfolding Di
        by (simp add: Let_def I_def view_def F_def K_def G_def out_def app_def same_config_def
              sd_append_def et_def)
    qed
  qed
  have main: "I (s', sd, infos) \<and>
      (\<forall>j. view j (s', sd, infos) =
         (if j \<in> set [0..<n] then F j (view j (s, empty_step_data, []))
          else view j (s, empty_step_data, [])))
      \<and> (\<forall>i\<in>set [0..<n]. K i (view i (s, empty_step_data, [])))
      \<and> out (s', sd, infos) =
          foldl app (out (s, empty_step_data, []))
            (map (\<lambda>i. G i (view i (s, empty_step_data, []))) [0..<n])"
    by (rule for_each_pointwise[where body = "async_recv w actions" and I = I and view = view
          and F = F and K = K and out = out and app = app and G = G, OF run distinct_upt I0])
       (rule step)
  define R where "R = (\<lambda>i. G i (view i (s, empty_step_data, [])))"
  have m1: "same_config s s'"
    "env_total_step s' = env_total_step s + int (length (sd_state sd))"
    using main by (simp_all add: I_def)
  have m2: "view j (s', sd, infos) = F j (view j (s, empty_step_data, []))" if "j < n" for j
    using main that by simp
  have m3: "K i (view i (s, empty_step_data, []))" if "i < n" for i
    using main that by simp
  have "(sd, infos) = foldl app (empty_step_data, []) (map R [0..<n])"
    using main by (simp add: out_def R_def)
  then have m4: "(sd, infos) =
     (\<lparr> sd_state = concat (map (\<lambda>i. sd_state (fst (R i))) [0..<n]),
        sd_avail_actions = concat (map (\<lambda>i. sd_avail_actions (fst (R i))) [0..<n]),
        sd_obs = concat (map (\<lambda>i. sd_obs (fst (R i))) [0..<n]),
        sd_reward = concat (map (\<lambda>i. sd_reward (fst (R i))) [0..<n]),
        sd_individual_rewards = concat (map (\<lambda>i. sd_individual_rewards (fst (R i))) [0..<n]),
        sd_terminated = concat (map (\<lambda>i. sd_terminated (fst (R i))) [0..<n]) \<rparr>,
      concat (map (\<lambda>i. snd (R i)) [0..<n]))"
    unfolding app_def foldl_sd_append by (simp add: empty_step_data_def comp_def)
  have f1: "sd_state sd = map (\<lambda>i. hd (sd_state (fst (R i)))) [0..<n]"
    using m4 by (simp add: concat_singletons R_def G_def)
  have f2: "sd_avail_actions sd = map (\<lambda>i. hd (sd_avail_actions (fst (R i)))) [0..<n]"
    using m4 by (simp add: concat_singletons R_def G_def)
  have f3: "sd_obs sd = map (\<lambda>i. hd (sd_obs (fst (R i)))) [0..<n]"
    using m4 by (simp add: concat_singletons R_def G_def)
  have f4: "sd_reward sd = map (\<lambda>i. hd (sd_reward (fst (R i)))) [0..<n]"
    using m4 by (simp add: concat_singletons R_def G_def)
  have f5: "sd_individual_rewards sd = map (\<lambda>i. hd (sd_individual_rewards (fst (R i)))) [0..<n]"
    using m4 by (simp add: concat_singletons R_def G_def)
  have f6: "sd_terminated sd = map (\<lambda>i. hd (sd_terminated (fst (R i)))) [0..<n]"
    using m4 by (simp add: concat_singletons R_def G_def)
  have f7: "filter (\<lambda>p. fst p = i) infos = snd (R i)" if "i < n" for i
  proof -
    have "infos = concat (map (\<lambda>i. snd (R i)) [0..<n])" using m4 by simp
    moreover have "\<And>j p. p \<in> set (snd (R j)) \<Longrightarrow> fst p = j"
      by (auto simp: R_def G_def split: if_splits)
    ultimately show ?thesis
      using filter_concat_tagged[where G = "\<lambda>i. snd (R i)" and i = i and ks = "[0..<n]"] that
      by simp
  qed
  show "same_config s s' \<and> env_total_step s' = env_total_step s + int n \<and>
         length (sd_state sd) = n \<and> length (sd_avail_actions sd) = n \<and>
         length (sd_obs sd) = n \<and> length (sd_reward sd) = n \<and>
         length (sd_individual_rewards sd) = n \<and> length (sd_terminated sd) = n"
    using m1 f1 f2 f3 f4 f5 f6 by simp
  show "\<not> terminated s' ! i \<and> episode_lengths s' ! i = episode_lengths s ! i \<and>
           episode_returns s' ! i = episode_returns s ! i \<and>
           filter (\<lambda>p. fst p = i) infos = [] \<and>
           sd_reward sd ! i = 0 \<and> sd_terminated sd ! i = False \<and>
           sd_individual_rewards sd ! i = np_zeros [n_agents (rargs s), 1] \<and>
           sd_state sd ! i = r_state (reset_reply w i) \<and>
           sd_avail_actions sd ! i = r_avail_actions (reset_reply w i) \<and>
           sd_obs sd ! i = r_obs (reset_reply w i)"
    if "i < n" "terminated s ! i" for i
  proof -
    have Ri: "R i = (\<lparr> sd_state = [r_state (reset_reply w i)],
              sd_avail_actions = [r_avail_actions (reset_reply w i)],
              sd_obs = [r_obs (reset_reply w i)],
              sd_reward = [0],
              sd_individual_rewards = [np_zeros [n_agents (rargs s), 1]],
              sd_terminated = [False] \<rparr>, [])"
      using that(2) by (simp add: R_def G_def view_def)
    have v: "view i (s', sd, infos) = (False, snd (view i (s, empty_step_data, [])))"
      using m2[OF that(1)] that(2) by (simp add: F_def view_def)
    show ?thesis
      using v that f7[OF that(1)] Ri
      by (simp add: f1 f2 f3 f4 f5 f6 view_def)
  qed
  show "\<exists>a ir. py_index actions i = Inr a \<and>
             m_info (step_reply w i a) ''individual_rewards'' = Some ir \<and>
             (let d = step_reply w i a;
                  len = episode_lengths s ! i + 1;
                  ret = episode_returns s ! i + m_reward d;
                  env_terminated = (m_terminated d \<and> limit_flag (m_info d) = Inr False)
              in (m_terminated d \<longrightarrow> (\<exists>b. limit_flag (m_info d) = Inr b)) \<and>
                 terminated s' ! i = env_terminated \<and>
                 episode_lengths s' ! i = (if m_terminated d then 0 else len) \<and>
                 episode_returns s' ! i = (if m_terminated d then 0 else ret) \<and>
                 filter (\<lambda>p. fst p = i) infos =
                   (if m_terminated d
                    then [(i, terminal_record (evaluate s) len ret (m_info d))] else []) \<and>
                 sd_reward sd ! i = m_reward d \<and>
                 sd_individual_rewards sd ! i = expand_dims ir \<and>
                 sd_terminated sd ! i = env_terminated \<and>
                 sd_state sd ! i = m_state d \<and>
                 sd_avail_actions sd ! i = m_avail_actions d \<and>
                 sd_obs sd ! i = m_obs d)"
    if "i < n" "\<not> terminated s ! i" for i
  proof -
    from m3[OF that(1)] that(2) obtain a ir where a: "py_index actions i = Inr a"
      and ir: "m_info (D i) ''individual_rewards'' = Some ir"
      and lim: "m_terminated (D i) \<longrightarrow> (\<exists>b. limit_flag (m_info (D i)) = Inr b)"
      by (auto simp: K_def view_def)
    have Di: "step_reply w i a = D i" using a by (simp add: D_def)
    have v: "view i (s', sd, infos) = F i (view i (s, empty_step_data, []))"
      by (rule m2[OF that(1)])
    have "m_info (step_reply w i a) ''individual_rewards'' = Some ir \<and>
             (let d = step_reply w i a;
                  len = episode_lengths s ! i + 1;
                  ret = episode_returns s ! i + m_reward d;
                  env_terminated = (m_terminated d \<and> limit_flag (m_info d) = Inr False)
              in (m_terminated d \<longrightarrow> (\<exists>b. limit_flag (m_info d) = Inr b)) \<and>
                 terminated s' ! i = env_terminated \<and>
                 episode_lengths s' ! i = (if m_terminated d then 0 else len) \<and>
                 episode_returns s' ! i = (if m_terminated d then 0 else ret) \<and>
                 filter (\<lambda>p. fst p = i) infos =
                   (if m_terminated d
                    then [(i, terminal_record (evaluate s) len ret (m_info d))] else []) \<and>
                 sd_reward sd ! i = m_reward d \<and>
                 sd_individual_rewards sd ! i = expand_dims ir \<and>
                 sd_terminated sd ! i = env_terminated \<and>
                 sd_state sd ! i = m_state d \<and>
                 sd_avail_actions sd ! i = m_avail_actions d \<and>
                 sd_obs sd ! i = m_obs d)"
      unfolding Di
      using v that ir lim f7[OF that(1)]
      by (simp add: Let_def f1 f2 f3 f4 f5 f6 view_def F_def R_def G_def et_def)
    with a show ?thesis by blast
  qed
qed

section \<open>One call of a step function\<close>

lemma fold_sync_reset_recv:
  "fold (sync_reset_recv w s) idxs sd =
     sd_append sd
       \<lparr> sd_state = map (\<lambda>i. r_state (reset_reply w i)) idxs,
         sd_avail_actions = map (\<lambda>i. r_avail_actions (reset_reply w i)) idxs,
         sd_obs = map (\<lambda>i. r_obs (reset_reply w i)) idxs,
         sd_reward = map (\<lambda>i. 0) idxs,
         sd_individual_rewards = map (\<lambda>i. np_zeros [n_agents (rargs s), 1]) idxs,
         sd_terminated = map (\<lambda>i. False) idxs \<rparr>"
  by (induction idxs arbitrary: sd) (simp_all add: sync_reset_recv_def sd_append_def Let_def)

lemma sync_step_all_terminated:
  assumes "list_all (\<lambda>b. b) (terminated s)"
  shows "sync_step w s actions =
     Inr (s\<lparr> envs_step := map (\<lambda>_. 0) (envs_step s),
             terminated := map (\<lambda>_. False) (terminated s) \<rparr>,
          \<lparr> sd_state = map (\<lambda>i. r_state (reset_reply w i)) [0..<env_batch_size s],
            sd_avail_actions = map (\<lambda>i. r_avail_actions (reset_reply w i)) [0..<env_batch_size s],
            sd_obs = map (\<lambda>i. r_obs (reset_reply w i)) [0..<env_batch_size s],
            sd_reward = map (\<lambda>i. 0) [0..<env_batch_size s],
            sd_individual_rewards =
              map (\<lambda>i. np_zeros [n_agents (rargs s), 1]) [0..<env_batch_size s],
            sd_terminated = map (\<lambda>i. False) [0..<env_batch_size s] \<rparr>,
          [], map (\<lambda>idx. (idx, CReset)) [0..<env_batch_size s])"
  using assms
  by (simp add: sync_step_def Let_def fold_sync_reset_recv sd_append_def empty_step_data_def)

lemma runner_inv_same_config: "runner_inv s \<Longrightarrow> same_config s s' \<Longrightarrow> runner_inv s'"
  by (simp add: runner_inv_def same_config_def)

lemma same_config_trans: "same_config s t \<Longrightarrow> same_config t u \<Longrightarrow> same_config s u"
  by (simp add: same_config_def)

lemma not_all_terminated:
  "runner_inv s \<Longrightarrow> i < env_batch_size s \<Longrightarrow> \<not> terminated s ! i \<Longrightarrow>
   \<not> list_all (\<lambda>b. b) (terminated s)"
  by (auto simp: runner_inv_def list_all_length)

lemma alive_env_indices:
  "alive_env s = int (length (filter (\<lambda>i. \<not> terminated s ! i) [0..<length (terminated s)]))"
proof -
  have "filter (\<lambda>b. b = False) (terminated s) =
        filter (\<lambda>b. b = False) (map (\<lambda>i. terminated s ! i) [0..<length (terminated s)])"
    by (simp only: map_nth)
  also have "\<dots> = map (\<lambda>i. terminated s ! i)
                      (filter (\<lambda>i. \<not> terminated s ! i) [0..<length (terminated s)])"
    by (simp add: filter_map comp_def)
  finally show ?thesis by (simp add: alive_env_def)
qed

lemma sync_step_running:
  assumes run: "sync_step w s actions = Inr (s', sd, infos, sent)"
    and inv: "runner_inv s"
    and nall: "\<not> list_all (\<lambda>b. b) (terminated s)"
  shows "same_config s s' \<and>
         env_total_step s' =
           env_total_step s + int (length (filter (\<lambda>i. \<not> terminated s ! i) [0..<env_batch_size s])) \<and>
         length (sd_state sd) = env_batch_size s \<and>
         length (sd_avail_actions sd) = env_batch_size s \<and>
         length (sd_obs sd) = env_batch_size s \<and> length (sd_reward sd) = env_batch_size s \<and>
         length (sd_individual_rewards sd) = env_batch_size s \<and>
         length (sd_terminated sd) = env_batch_size s"
    and "\<And>i. i < env_batch_size s \<Longrightarrow> terminated s ! i \<Longrightarrow>
           filter (\<lambda>p. fst p = i) sent = [] \<and>
           terminated s' ! i \<and> episode_lengths s' ! i = episode_lengths s ! i \<and>
           episode_returns s' ! i = episode_returns s ! i \<and>
           filter (\<lambda>p. fst p = i) infos = [] \<and>
           sd_state sd ! i = np_zeros [state_shape (rargs s)] \<and>
           sd_avail_actions sd ! i = np_ones [n_agents (rargs s), n_actions (rargs s)] \<and>
           sd_obs sd ! i = np_zeros [n_agents (rargs s), obs_shape (rargs s)] \<and>
           sd_reward sd ! i = 0 \<and> sd_terminated sd ! i = False \<and>
           sd_individual_rewards sd ! i = np_zeros [n_agents (rargs s), 1]"
    and "\<And>i. i < env_batch_size s \<Longrightarrow> \<not> terminated s ! i \<Longrightarrow>
           \<exists>a ir. py_index actions i = Inr a \<and>
             m_info (step_reply w i a) ''individual_rewards'' = Some ir \<and>
             filter (\<lambda>p. fst p = i) sent = [(i, CStep a)] \<and>
             (let d = step_reply w i a;
                  info' = (m_info d)(''individual_rewards'' := None);
                  len = episode_lengths s ! i + 1;
                  ret = episode_returns s ! i + m_reward d;
                  env_terminated = (m_terminated d \<and> limit_flag info' = Inr False)
              in (m_terminated d \<longrightarrow> (\<exists>b. limit_flag info' = Inr b)) \<and>
                 terminated s' ! i = env_terminated \<and>
                 episode_lengths s' ! i = (if m_terminated d then 0 else len) \<and>
                 episode_returns s' ! i = (if m_terminated d then 0 else ret) \<and>
                 filter (\<lambda>p. fst p = i) infos =
                   (if m_terminated d
                    then [(i, terminal_record (evaluate s) len ret info')] else []) \<and>
                 sd_reward sd ! i = m_reward d \<and>
                 sd_individual_rewards sd ! i = expand_dims ir \<and>
                 sd_terminated sd ! i = env_terminated \<and>
                 sd_state sd ! i = m_state d \<and>
                 sd_avail_actions sd ! i = m_avail_actions d \<and>
                 sd_obs sd ! i = m_obs d)"
proof -
  let ?n = "env_batch_size s"
  from run nall obtain s1 where
    snd: "for_each (sync_send actions) [0..<?n] (s, []) = Inr (s1, sent)" and
    rcv: "for_each (sync_recv w actions) [0..<?n] (s1, empty_step_data, []) = Inr (s', sd, infos)"
    by (auto simp: sync_step_def Let_def split: sum.splits)
  note S = sync_send_loop[OF snd distinct_upt]
  have l1: "length (terminated s1) = ?n" "length (episode_lengths s1) = ?n"
    "length (episode_returns s1) = ?n"
    using S(2,3,4) inv by (simp_all add: runner_inv_def)
  note R = sync_recv_loop[OF rcv l1]
  have e1: "rargs s1 = rargs s" "evaluate s1 = evaluate s"
    using S(1) by (simp_all add: same_config_def)
  have sentf: "filter (\<lambda>p. fst p = i) sent =
      (if terminated s ! i then [] else [(i, CStep (projr (py_index actions i)))])"
    if "i < ?n" for i
  proof -
    have "\<And>j p. p \<in> set (if terminated s ! j then []
                else [(j, CStep (projr (py_index actions j)))]) \<Longrightarrow> fst p = j"
      by (auto split: if_splits)
    from filter_concat_tagged[where G = "\<lambda>i. if terminated s ! i then []
            else [(i, CStep (projr (py_index actions i)))]" and i = i and ks = "[0..<?n]",
          OF this distinct_upt]
    show ?thesis using S(6) that by simp
  qed
  show "same_config s s' \<and>
         env_total_step s' =
           env_total_step s + int (length (filter (\<lambda>i. \<not> terminated s ! i) [0..<env_batch_size s])) \<and>
         length (sd_state sd) = env_batch_size s \<and>
         length (sd_avail_actions sd) = env_batch_size s \<and>
         length (sd_obs sd) = env_batch_size s \<and> length (sd_reward sd) = env_batch_size s \<and>
         length (sd_individual_rewards sd) = env_batch_size s \<and>
         length (sd_terminated sd) = env_batch_size s"
    using R(1) S(1) S(7) same_config_trans[of s s1 s'] by simp
  show "filter (\<lambda>p. fst p = i) sent = [] \<and>
           terminated s' ! i \<and> episode_lengths s' ! i = episode_lengths s ! i \<and>
           episode_returns s' ! i = episode_returns s ! i \<and>
           filter (\<lambda>p. fst p = i) infos = [] \<and>
           sd_state sd ! i = np_zeros [state_shape (rargs s)] \<and>
           sd_avail_actions sd ! i = np_ones [n_agents (rargs s), n_actions (rargs s)] \<and>
           sd_obs sd ! i = np_zeros [n_agents (rargs s), obs_shape (rargs s)] \<and>
           sd_reward sd ! i = 0 \<and> sd_terminated sd ! i = False \<and>
           sd_individual_rewards sd ! i = np_zeros [n_agents (rargs s), 1]"
    if "i < env_batch_size s" "terminated s ! i" for i
    using R(2)[of i] that sentf[of i] S(2,3,4) e1 by simp
  show "\<exists>a ir. py_index actions i = Inr a \<and>
             m_info (step_reply w i a) ''individual_rewards'' = Some ir \<and>
             filter (\<lambda>p. fst p = i) sent = [(i, CStep a)] \<and>
             (let d = step_reply w i a;
                  info' = (m_info d)(''individual_rewards'' := None);
                  len = episode_lengths s ! i + 1;
                  ret = episode_returns s ! i + m_reward d;
                  env_terminated = (m_terminated d \<and> limit_flag info' = Inr False)
              in (m_terminated d \<longrightarrow> (\<exists>b. limit_flag info' = Inr b)) \<and>
                 terminated s' ! i = env_terminated \<and>
                 episode_lengths s' ! i = (if m_terminated d then 0 else len) \<and>
                 episode_returns s' ! i = (if m_terminated d then 0 else ret) \<and>
                 filter (\<lambda>p. fst p = i) infos =
                   (if m_terminated d
                    then [(i, terminal_record (evaluate s) len ret info')] else []) \<and>
                 sd_reward sd ! i = m_reward d \<and>
                 sd_individual_rewards sd ! i = expand_dims ir \<and>
                 sd_terminated sd ! i = env_terminated \<and>
                 sd_state sd ! i = m_state d \<and>
                 sd_avail_actions sd ! i = m_avail_actions d \<and>
                 sd_obs sd ! i = m_obs d)"
    if "i < env_batch_size s" "\<not> terminated s ! i" for i
  proof -
    have "\<not> terminated s1 ! i" using that S(2) by simp
    from R(3)[OF that(1) this] obtain a ir where a: "py_index actions i = Inr a"
      and rest: "m_info (step_reply w i a) ''individual_rewards'' = Some ir \<and>
             (let d = step_reply w i a;
                  info' = (m_info d)(''individual_rewards'' := None);
                  len = episode_lengths s1 ! i + 1;
                  ret = episode_returns s1 ! i + m_reward d;
                  env_terminated = (m_terminated d \<and> limit_flag info' = Inr False)
              in (m_terminated d \<longrightarrow> (\<exists>b. limit_flag info' = Inr b)) \<and>
                 terminated s' ! i = env_terminated \<and>
                 episode_lengths s' ! i = (if m_terminated d then 0 else len) \<and>
                 episode_returns s' ! i = (if m_terminated d then 0 else ret) \<and>
                 filter (\<lambda>p. fst p = i) infos =
                   (if m_terminated d
                    then [(i, terminal_record (evaluate s1) len ret info')] else []) \<and>
                 sd_reward sd ! i = m_reward d \<and>
                 sd_individual_rewards sd ! i = expand_dims ir \<and>
                 sd_terminated sd ! i = env_terminated \<and>
                 sd_state sd ! i = m_state d \<and>
                 sd_avail_actions sd ! i = m_avail_actions d \<and>
                 sd_obs sd ! i = m_obs d)"
      by blast
    have "filter (\<lambda>p. fst p = i) sent = [(i, CStep a)]"
      using sentf[OF that(1)] that(2) a by simp
    with a rest show ?thesis
      unfolding S(3) S(4) e1 by blast
  qed
qed

lemma sync_step_running_sent:
  assumes run: "sync_step w s actions = Inr (s', sd, infos, sent)"
    and nall: "\<not> list_all (\<lambda>b. b) (terminated s)"
  shows "(j, CReset) \<notin> set sent"
proof -
  from run nall obtain s1 where
    snd: "for_each (sync_send actions) [0..<env_batch_size s] (s, []) = Inr (s1, sent)"
    by (auto simp: sync_step_def Let_def split: sum.splits)
  from sync_send_loop(6)[OF snd distinct_upt] show ?thesis
    by (auto split: if_splits)
qed

lemma async_step_run:
  assumes run: "async_step w s actions = Inr (s', sd, infos, sent)"
    and inv: "runner_inv s"
  shows "same_config s s' \<and>
         env_total_step s' = env_total_step s + int (env_batch_size s) \<and>
         length sent = env_batch_size s \<and>
         length (sd_state sd) = env_batch_size s \<and>
         length (sd_avail_actions sd) = env_batch_size s \<and>
         length (sd_obs sd) = env_batch_size s \<and> length (sd_reward sd) = env_batch_size s \<and>
         length (sd_individual_rewards sd) = env_batch_size s \<and>
         length (sd_terminated sd) = env_batch_size s"
    and "\<And>i. i < env_batch_size s \<Longrightarrow> terminated s ! i \<Longrightarrow>
           sent ! i = (i, CReset) \<and>
           \<not> terminated s' ! i \<and> episode_lengths s' ! i = episode_lengths s ! i \<and>
           episode_returns s' ! i = episode_returns s ! i \<and>
           filter (\<lambda>p. fst p = i) infos = [] \<and>
           sd_reward sd ! i = 0 \<and> sd_terminated sd ! i = False \<and>
           sd_individual_rewards sd ! i = np_zeros [n_agents (rargs s), 1] \<and>
           sd_state sd ! i = r_state (reset_reply w i) \<and>
           sd_avail_actions sd ! i = r_avail_actions (reset_reply w i) \<and>
           sd_obs sd ! i = r_obs (reset_reply w i)"
    and "\<And>i. i < env_batch_size s \<Longrightarrow> \<not> terminated s ! i \<Longrightarrow>
           \<exists>a ir. py_index actions i = Inr a \<and>
             m_info (step_reply w i a) ''individual_rewards'' = Some ir \<and>
             sent ! i = (i, CStep a) \<and>
             (let d = step_reply w i a;
                  len = episode_lengths s ! i + 1;
                  ret = episode_returns s ! i + m_reward d;
                  env_terminated = (m_terminated d \<and> limit_flag (m_info d) = Inr False)
              in (m_terminated d \<longrightarrow> (\<exists>b. limit_flag (m_info d) = Inr b)) \<and>
                 terminated s' ! i = env_terminated \<and>
                 episode_lengths s' ! i = (if m_terminated d then 0 else len) \<and>
                 episode_returns s' ! i = (if m_terminated d then 0 else ret) \<and>
                 filter (\<lambda>p. fst p = i) infos =
                   (if m_terminated d
                    then [(i, terminal_record (evaluate s) len ret (m_info d))] else []) \<and>
                 sd_reward sd ! i = m_reward d \<and>
                 sd_individual_rewards sd ! i = expand_dims ir \<and>
                 sd_terminated sd ! i = env_terminated \<and>
                 sd_state sd ! i = m_state d \<and>
                 sd_avail_actions sd ! i = m_avail_actions d \<and>
                 sd_obs sd ! i = m_obs d)"
proof -
  let ?n = "env_batch_size s"
  from run obtain s1 where
    snd: "for_each (async_send actions) [0..<?n] (s, []) = Inr (s1, sent)" and
    rcv: "for_each (async_recv w actions) [0..<?n] (s1, empty_step_data, []) = Inr (s', sd, infos)"
    by (auto simp: async_step_def Let_def split: sum.splits)
  note S = async_send_loop[OF snd]
  have Seq: "terminated s1 = terminated s" "episode_lengths s1 = episode_lengths s"
    "episode_returns s1 = episode_returns s" "env_total_step s1 = env_total_step s"
    "same_config s s1" "length sent = ?n"
    using S(1) by simp_all
  have l1: "length (terminated s1) = ?n" "length (episode_lengths s1) = ?n"
    "length (episode_returns s1) = ?n"
    using Seq inv by (simp_all add: runner_inv_def)
  note R = async_recv_loop[OF rcv l1]
  have e1: "rargs s1 = rargs s" "evaluate s1 = evaluate s"
    using Seq(5) by (simp_all add: same_config_def)
  show "same_config s s' \<and>
         env_total_step s' = env_total_step s + int (env_batch_size s) \<and>
         length sent = env_batch_size s \<and>
         length (sd_state sd) = env_batch_size s \<and>
         length (sd_avail_actions sd) = env_batch_size s \<and>
         length (sd_obs sd) = env_batch_size s \<and> length (sd_reward sd) = env_batch_size s \<and>
         length (sd_individual_rewards sd) = env_batch_size s \<and>
         length (sd_terminated sd) = env_batch_size s"
    using R(1) Seq same_config_trans[of s s1 s'] by simp
  show "sent ! i = (i, CReset) \<and>
           \<not> terminated s' ! i \<and> episode_lengths s' ! i = episode_lengths s ! i \<and>
           episode_returns s' ! i = episode_returns s ! i \<and>
           filter (\<lambda>p. fst p = i) infos = [] \<and>
           sd_reward sd ! i = 0 \<and> sd_terminated sd ! i = False \<and>
           sd_individual_rewards sd ! i = np_zeros [n_agents (rargs s), 1] \<and>
           sd_state sd ! i = r_state (reset_reply w i) \<and>
           sd_avail_actions sd ! i = r_avail_actions (reset_reply w i) \<and>
           sd_obs sd ! i = r_obs (reset_reply w i)"
    if "i < env_batch_size s" "terminated s ! i" for i
    using R(2)[of i] that S(2)[of i] Seq e1 by simp
  show "\<exists>a ir. py_index actions i = Inr a \<and>
             m_info (step_reply w i a) ''individual_rewards'' = Some ir \<and>
             sent ! i = (i, CStep a) \<and>
             (let d = step_reply w i a;
                  len = episode_lengths s ! i + 1;
                  ret = episode_returns s ! i + m_reward d;
                  env_terminated = (m_terminated d \<and> limit_flag (m_info d) = Inr False)
              in (m_terminated d \<longrightarrow> (\<exists>b. limit_flag (m_info d) = Inr b)) \<and>
                 terminated s' ! i = env_terminated \<and>
                 episode_lengths s' ! i = (if m_terminated d then 0 else len) \<and>
                 episode_returns s' ! i = (if m_terminated d then 0 else ret) \<and>
                 filter (\<lambda>p. fst p = i) infos =
                   (if m_terminated d
                    then [(i, terminal_record (evaluate s) len ret (m_info d))] else []) \<and>
                 sd_reward sd ! i = m_reward d \<and>
                 sd_individual_rewards sd ! i = expand_dims ir \<and>
                 sd_terminated sd ! i = env_terminated \<and>
                 sd_state sd ! i = m_state d \<and>
                 sd_avail_actions sd ! i = m_avail_actions d \<and>
                 sd_obs sd ! i = m_obs d)"
    if "i < env_batch_size s" "\<not> terminated s ! i" for i
  proof -
    have "\<not> terminated s1 ! i" using that Seq(1) by simp
    from R(3)[OF that(1) this] obtain a ir where a: "py_index actions i = Inr a"
      and rest: "m_info (step_reply w i a) ''individual_rewards'' = Some ir \<and>
             (let d = step_reply w i a;
                  len = episode_lengths s1 ! i + 1;
                  ret = episode_returns s1 ! i + m_reward d;
                  env_terminated = (m_terminated d \<and> limit_flag (m_info d) = Inr False)
              in (m_terminated d \<longrightarrow> (\<exists>b. limit_flag (m_info d) = Inr b)) \<and>
                 terminated s' ! i = env_terminated \<and>
                 episode_lengths s' ! i = (if m_terminated d then 0 else len) \<and>
                 episode_returns s' ! i = (if m_terminated d then 0 else ret) \<and>
                 filter (\<lambda>p. fst p = i) infos =
                   (if m_terminated d
                    then [(i, terminal_record (evaluate s1) len ret (m_info d))] else []) \<and>
                 sd_reward sd ! i = m_reward d \<and>
                 sd_individual_rewards sd ! i = expand_dims ir \<and>
                 sd_terminated sd ! i = env_terminated \<and>
                 sd_state sd ! i = m_state d \<and>
                 sd_avail_actions sd ! i = m_avail_actions d \<and>
                 sd_obs sd ! i = m_obs d)"
      by blast
    from S(3)[OF that] a have "sent ! i = (i, CStep a)" by auto
    with a rest show ?thesis
      unfolding Seq(2) Seq(3) e1 by blast
  qed
qed

lemma sync_step_inv:
  assumes "sync_step w s actions = Inr (s', sd, infos, sent)" "runner_inv s"
  shows "runner_inv s' \<and> rargs s' = rargs s \<and> env_batch_size s' = env_batch_size s"
proof (cases "list_all (\<lambda>b. b) (terminated s)")
  case True
  with assms show ?thesis
    using sync_step_all_terminated[OF True, of w actions]
    by (auto simp: runner_inv_def)
next
  case False
  from sync_step_running(1)[OF assms False] have "same_config s s'" by simp
  then show ?thesis using assms(2) runner_inv_same_config
    by (auto simp: same_config_def)
qed

lemma async_step_inv:
  assumes "async_step w s actions = Inr (s', sd, infos, sent)" "runner_inv s"
  shows "runner_inv s' \<and> rargs s' = rargs s \<and> env_batch_size s' = env_batch_size s"
proof -
  from async_step_run(1)[OF assms] have "same_config s s'" by simp
  then show ?thesis using assms(2) runner_inv_same_config
    by (auto simp: same_config_def)
qed

text \<open>
  How \<^verbatim>\<open>actions[idx]\<close> and the truth value of \<^verbatim>\<open>info.get("episode_limit", False)\<close> read
  in terms of the action list and of the info dictionary.
\<close>

lemma py_index_Inr:
  "py_index actions i = Inr a \<longleftrightarrow> (\<exists>acts. actions = Some acts \<and> i < length acts \<and> a = acts ! i)"
  by (auto simp: py_index_def split: option.splits)

lemma limit_flag_absent: "env_info ''episode_limit'' = None \<Longrightarrow> limit_flag env_info = Inr False"
  by (simp add: limit_flag_def dict_get_def py_bool_def)

lemma limit_flag_scalar:
  "env_info ''episode_limit'' = Some (Scalar x) \<Longrightarrow> limit_flag env_info = Inr (x \<noteq> 0)"
  by (simp add: limit_flag_def dict_get_def py_bool_def)

section \<open>The step functions return\<close>

text \<open>
  A call raises only for a reason the caller or a worker supplies: a missing action for
  a worker that is stepping, a reply without \<^verbatim>\<open>individual_rewards\<close>, or an
  \<^verbatim>\<open>episode_limit\<close> without a truth value. Otherwise both step functions return.
\<close>

lemma for_each_succeeds:
  assumes "distinct ks" and "I st" and "\<forall>i\<in>set ks. P i (view i st)"
    and step: "\<And>i t. i \<in> set ks \<Longrightarrow> I t \<Longrightarrow> P i (view i t) \<Longrightarrow>
                 \<exists>t'. body i t = Inr t' \<and> I t' \<and> (\<forall>j. j \<noteq> i \<longrightarrow> view j t' = view j t)"
  shows "\<exists>st'. for_each body ks st = Inr st' \<and> I st'"
  using assms
proof (induction ks arbitrary: st)
  case Nil
  then show ?case by simp
next
  case (Cons i ks)
  from Cons.prems(4)[of i st] Cons.prems(2,3)
  obtain t where b: "body i st = Inr t" and It: "I t"
    and fr: "\<forall>j. j \<noteq> i \<longrightarrow> view j t = view j st"
    by auto
  have d: "distinct ks" and ni: "i \<notin> set ks" using Cons.prems(1) by auto
  have P: "\<forall>j\<in>set ks. P j (view j t)"
    using Cons.prems(3) fr ni by auto
  have st: "\<exists>t'. body j u = Inr t' \<and> I t' \<and> (\<forall>k. k \<noteq> j \<longrightarrow> view k t' = view k u)"
    if "j \<in> set ks" "I u" "P j (view j u)" for j u
    by (rule Cons.prems(4)) (use that in simp_all)
  from Cons.IH[OF d It P st] b show ?case by simp
qed

lemma sync_send_succeeds:
  assumes ok: "\<And>i. i < n \<Longrightarrow> \<not> terminated s ! i \<Longrightarrow> \<exists>a. py_index actions i = Inr a"
  shows "\<exists>r. for_each (sync_send actions) [0..<n] (s, []) = Inr r"
proof -
  define I where "I = (\<lambda>t :: runner \<times> (nat \<times> 'a cmd) list. terminated (fst t) = terminated s)"
  define view where "view = (\<lambda>(j::nat) (t :: runner \<times> (nat \<times> 'a cmd) list). ())"
  define P where "P = (\<lambda>i (v::unit). \<not> terminated s ! i \<longrightarrow> (\<exists>a. py_index actions i = Inr a))"
  have step: "\<exists>t'. sync_send actions i t = Inr t' \<and> I t' \<and> (\<forall>j. j \<noteq> i \<longrightarrow> view j t' = view j t)"
    if "i \<in> set [0..<n]" "I t" "P i (view i t)" for i t
    using that by (cases t) (auto simp: I_def P_def view_def sync_send_def)
  have "\<exists>st'. for_each (sync_send actions) [0..<n] (s, []) = Inr st' \<and> I st'"
    by (rule for_each_succeeds[where I = I and view = view and P = P])
       (use ok step in \<open>auto simp: I_def P_def\<close>)
  then show ?thesis by blast
qed

lemma sync_recv_succeeds:
  assumes len: "length (terminated s) = n" "length (episode_lengths s) = n"
               "length (episode_returns s) = n"
    and ok: "\<And>i. i < n \<Longrightarrow> \<not> terminated s ! i \<Longrightarrow>
               \<exists>a ir. py_index actions i = Inr a \<and>
                 m_info (step_reply w i a) ''individual_rewards'' = Some ir \<and>
                 (m_terminated (step_reply w i a) \<longrightarrow>
                    (\<exists>b. limit_flag ((m_info (step_reply w i a))(''individual_rewards'' := None))
                           = Inr b))"
  shows "\<exists>r. for_each (sync_recv w actions) [0..<n] (s, empty_step_data, []) = Inr r"
proof -
  define I where "I = (\<lambda>t :: runner \<times> step_data \<times> (nat \<times> info) list.
     length (terminated (fst t)) = n \<and> length (episode_lengths (fst t)) = n \<and>
     length (episode_returns (fst t)) = n)"
  define view where "view = (\<lambda>j (t :: runner \<times> step_data \<times> (nat \<times> info) list).
     terminated (fst t) ! j)"
  define P where "P = (\<lambda>i (v::bool). \<not> v \<longrightarrow>
     (\<exists>a ir. py_index actions i = Inr a \<and>
                 m_info (step_reply w i a) ''individual_rewards'' = Some ir \<and>
                 (m_terminated (step_reply w i a) \<longrightarrow>
                    (\<exists>b. limit_flag ((m_info (step_reply w i a))(''individual_rewards'' := None))
                           = Inr b))))"
  have step: "\<exists>t'. sync_recv w actions i t = Inr t' \<and> I t' \<and>
                 (\<forall>j. j \<noteq> i \<longrightarrow> view j t' = view j t)"
    if "i \<in> set [0..<n]" "I t" "P i (view i t)" for i t
  proof -
    obtain u usd uinf where t: "t = (u, usd, uinf)" by (cases t)
    show ?thesis
    proof (cases "terminated u ! i")
      case True
      then show ?thesis using that(2) t
        by (simp add: sync_recv_dead I_def view_def)
    next
      case False
      with that(3) t obtain a ir where a: "py_index actions i = Inr a"
        and ir: "m_info (step_reply w i a) ''individual_rewards'' = Some ir"
        and lim: "m_terminated (step_reply w i a) \<longrightarrow>
                    (\<exists>b. limit_flag ((m_info (step_reply w i a))(''individual_rewards'' := None))
                           = Inr b)"
        by (auto simp: P_def view_def)
      show ?thesis
      proof (cases "m_terminated (step_reply w i a)")
        case mt: True
        with lim obtain b where
          "limit_flag ((m_info (step_reply w i a))(''individual_rewards'' := None)) = Inr b"
          by blast
        with mt False a ir that(2) t show ?thesis
          by (simp add: sync_recv_def Let_def get_terminated_env_info_eq I_def view_def)
      next
        case mf: False
        with False a ir that(2) t show ?thesis
          by (simp add: sync_recv_def Let_def I_def view_def)
      qed
    qed
  qed
  have "\<exists>st'. for_each (sync_recv w actions) [0..<n] (s, empty_step_data, []) = Inr st' \<and> I st'"
    by (rule for_each_succeeds[where I = I and view = view and P = P])
       (use ok len step in \<open>auto simp: I_def P_def view_def\<close>)
  then show ?thesis by blast
qed

lemma sync_step_returns:
  assumes inv: "runner_inv s"
    and ok: "\<And>i. i < env_batch_size s \<Longrightarrow> \<not> terminated s ! i \<Longrightarrow>
               \<exists>a ir. py_index actions i = Inr a \<and>
                 m_info (step_reply w i a) ''individual_rewards'' = Some ir \<and>
                 (m_terminated (step_reply w i a) \<longrightarrow>
                    (\<exists>b. limit_flag ((m_info (step_reply w i a))(''individual_rewards'' := None))
                           = Inr b))"
  shows "\<exists>r. sync_step w s actions = Inr r"
proof (cases "list_all (\<lambda>b. b) (terminated s)")
  case True
  then show ?thesis by (simp add: sync_step_all_terminated)
next
  case False
  let ?n = "env_batch_size s"
  have "\<exists>r. for_each (sync_send actions) [0..<?n] (s, []) = Inr r"
    by (rule sync_send_succeeds) (use ok in blast)
  then obtain s1 sent where
    snd: "for_each (sync_send actions) [0..<?n] (s, []) = Inr (s1, sent)"
    by (metis surj_pair)
  note S = sync_send_loop[OF snd distinct_upt]
  have l1: "length (terminated s1) = ?n" "length (episode_lengths s1) = ?n"
    "length (episode_returns s1) = ?n"
    using S(2,3,4) inv by (simp_all add: runner_inv_def)
  have "\<exists>r. for_each (sync_recv w actions) [0..<?n] (s1, empty_step_data, []) = Inr r"
    by (rule sync_recv_succeeds[OF l1]) (use ok S(2) in simp)
  then obtain r where
    "for_each (sync_recv w actions) [0..<?n] (s1, empty_step_data, []) = Inr r" by blast
  with snd False show ?thesis
    by (cases r) (simp add: sync_step_def Let_def)
qed

lemma async_send_succeeds:
  assumes ok: "\<And>i. i < n \<Longrightarrow> \<not> terminated s ! i \<Longrightarrow> \<exists>a. py_index actions i = Inr a"
  shows "\<exists>r. for_each (async_send actions) [0..<n] (s, []) = Inr r"
proof -
  define I where "I = (\<lambda>t :: runner \<times> (nat \<times> 'a cmd) list. terminated (fst t) = terminated s)"
  define view where "view = (\<lambda>(j::nat) (t :: runner \<times> (nat \<times> 'a cmd) list). ())"
  define P where "P = (\<lambda>i (v::unit). \<not> terminated s ! i \<longrightarrow> (\<exists>a. py_index actions i = Inr a))"
  have step: "\<exists>t'. async_send actions i t = Inr t' \<and> I t' \<and> (\<forall>j. j \<noteq> i \<longrightarrow> view j t' = view j t)"
    if "i \<in> set [0..<n]" "I t" "P i (view i t)" for i t
    using that by (cases t) (auto simp: I_def P_def view_def async_send_def)
  have "\<exists>st'. for_each (async_send actions) [0..<n] (s, []) = Inr st' \<and> I st'"
    by (rule for_each_succeeds[where I = I and view = view and P = P])
       (use ok step in \<open>auto simp: I_def P_def\<close>)
  then show ?thesis by blast
qed

lemma async_recv_succeeds:
  assumes len: "length (terminated s) = n" "length (episode_lengths s) = n"
               "length (episode_returns s) = n"
    and ok: "\<And>i. i < n \<Longrightarrow> \<not> terminated s ! i \<Longrightarrow>
               \<exists>a ir. py_index actions i = Inr a \<and>
                 m_info (step_reply w i a) ''individual_rewards'' = Some ir \<and>
                 (m_terminated (step_reply w i a) \<longrightarrow>
                    (\<exists>b. limit_flag (m_info (step_reply w i a)) = Inr b))"
  shows "\<exists>r. for_each (async_recv w actions) [0..<n] (s, empty_step_data, []) = Inr r"
proof -
  define I where "I = (\<lambda>t :: runner \<times> step_data \<times> (nat \<times> info) list.
     length (terminated (fst t)) = n \<and> length (episode_lengths (fst t)) = n \<and>
     length (episode_returns (fst t)) = n)"
  define view where "view = (\<lambda>j (t :: runner \<times> step_data \<times> (nat \<times> info) list).
     terminated (fst t) ! j)"
  define P where "P = (\<lambda>i (v::bool). \<not> v \<longrightarrow>
     (\<exists>a ir. py_index actions i = Inr a \<and>
                 m_info (step_reply w i a) ''individual_rewards'' = Some ir \<and>
                 (m_terminated (step_reply w i a) \<longrightarrow>
                    (\<exists>b. limit_flag (m_info (step_reply w i a)) = Inr b))))"
  have step: "\<exists>t'. async_recv w actions i t = Inr t' \<and> I t' \<and>
                 (\<forall>j. j \<noteq> i \<longrightarrow> view j t' = view j t)"
    if "i \<in> set [0..<n]" "I t" "P i (view i t)" for i t
  proof -
    obtain u usd uinf where t: "t = (u, usd, uinf)" by (cases t)
    show ?thesis
    proof (cases "terminated u ! i")
      case True
      then show ?thesis using that(2) t
        by (simp add: async_recv_dead I_def view_def)
    next
      case False
      with that(3) t obtain a ir where a: "py_index actions i = Inr a"
        and ir: "m_info (step_reply w i a) ''individual_rewards'' = Some ir"
        and lim: "m_terminated (step_reply w i a) \<longrightarrow>
                    (\<exists>b. limit_flag (m_info (step_reply w i a)) = Inr b)"
        by (auto simp: P_def view_def)
      show ?thesis
      proof (cases "m_terminated (step_reply w i a)")
        case mt: True
        with lim obtain b where "limit_flag (m_info (step_reply w i a)) = Inr b"
          by blast
        with mt False a ir that(2) t show ?thesis
          by (simp add: async_recv_def Let_def get_terminated_env_info_eq I_def view_def)
      next
        case mf: False
        with False a ir that(2) t show ?thesis
          by (simp add: async_recv_def Let_def I_def view_def)
      qed
    qed
  qed
  have "\<exists>st'. for_each (async_recv w actions) [0..<n] (s, empty_step_data, []) = Inr st' \<and> I st'"
    by (rule for_each_succeeds[where I = I and view = view and P = P])
       (use ok len step in \<open>auto simp: I_def P_def view_def\<close>)
  then show ?thesis by blast
qed

lemma async_step_returns:
  assumes inv: "runner_inv s"
    and ok: "\<And>i. i < env_batch_size s \<Longrightarrow> \<not> terminated s ! i \<Longrightarrow>
               \<exists>a ir. py_index actions i = Inr a \<and>
                 m_info (step_reply w i a) ''individual_rewards'' = Some ir \<and>
                 (m_terminated (step_reply w i a) \<longrightarrow>
                    (\<exists>b. limit_flag (m_info (step_reply w i a)) = Inr b))"
  shows "\<exists>r. async_step w s actions = Inr r"
proof -
  let ?n = "env_batch_size s"
  have "\<exists>r. for_each (async_send actions) [0..<?n] (s, []) = Inr r"
    by (rule async_send_succeeds) (use ok in blast)
  then obtain s1 sent where
    snd: "for_each (async_send actions) [0..<?n] (s, []) = Inr (s1, sent)"
    by (metis surj_pair)
  from async_send_loop(1)[OF snd] have S: "terminated s1 = terminated s"
    "episode_lengths s1 = episode_lengths s" "episode_returns s1 = episode_returns s"
    by simp_all
  have l1: "length (terminated s1) = ?n" "length (episode_lengths s1) = ?n"
    "length (episode_returns s1) = ?n"
    using S inv by (simp_all add: runner_inv_def)
  have "\<exists>r. for_each (async_recv w actions) [0..<?n] (s1, empty_step_data, []) = Inr r"
    by (rule async_recv_succeeds[OF l1]) (use ok S(1) in simp)
  then obtain r where
    "for_each (async_recv w actions) [0..<?n] (s1, empty_step_data, []) = Inr r" by blast
  with snd show ?thesis
    by (cases r) (simp add: async_step_def Let_def)
qed

section \<open>Runs on the concrete inputs\<close>

lemma upt_two: "[0..<2] = [0, Suc 0]"
  by (simp add: upt_rec numeral_2_eq_2)

text \<open>
  The concrete runners are the states that the step functions reach from a freshly
  constructed runner: the first call resets the batch, two calls step both workers with
  action 0, and the last call steps them with action 0, or gives worker 1 the action
  that ends its episode.
\<close>

lemmas step_defs = sync_step_def sync_send_def sync_recv_def sync_reset_recv_def
  async_step_def async_send_def async_recv_def ex_workers_def ex_args_def init_env_def
  py_index_def upt_two Let_def get_terminated_env_info_eq limit_flag_def py_bool_def
  dict_get_def empty_step_data_def

lemma ex_running_reached:
  "fst (projr (sync_step ex_workers
     (fst (projr (sync_step ex_workers
        (fst (projr (sync_step ex_workers
           (fst (projr (sync_step ex_workers (init_env ex_args False) None)))
           (Some [0, 0]))))
        (Some [0, 0]))))
     (Some [0, 0]))) = ex_running"
  by (simp add: step_defs ex_running_def numeral_2_eq_2 list_all_iff)

lemma ex_mixed_reached:
  "fst (projr (sync_step ex_workers
     (fst (projr (sync_step ex_workers
        (fst (projr (sync_step ex_workers
           (fst (projr (sync_step ex_workers (init_env ex_args False) None)))
           (Some [0, 0]))))
        (Some [0, 0]))))
     (Some [0, 1]))) = ex_mixed"
  by (simp add: step_defs ex_mixed_def numeral_2_eq_2 list_all_iff)

lemma ex_async_running_reached:
  "fst (projr (async_step ex_workers
     (fst (projr (async_step ex_workers
        (fst (projr (async_step ex_workers
           (fst (projr (async_step ex_workers
              (init_env (ex_args\<lparr> asynchronous_env := True \<rparr>) False) None)))
           (Some [0, 0]))))
        (Some [0, 0]))))
     (Some [0, 0]))) = ex_async_running"
  by (simp add: step_defs ex_async_running_def ex_running_def numeral_2_eq_2 list_all_iff)

lemma ex_async_mixed_reached:
  "fst (projr (async_step ex_workers
     (fst (projr (async_step ex_workers
        (fst (projr (async_step ex_workers
           (fst (projr (async_step ex_workers
              (init_env (ex_args\<lparr> asynchronous_env := True \<rparr>) False) None)))
           (Some [0, 0]))))
        (Some [0, 0]))))
     (Some [0, 1]))) = ex_async_mixed"
  by (simp add: step_defs ex_async_mixed_def ex_mixed_def numeral_2_eq_2 list_all_iff)

lemma ex_sync_running:
  "\<exists>r. sync_step ex_workers ex_running (Some [1, 1]) = Inr r"
  by (simp add: sync_step_def sync_send_def sync_recv_def ex_running_def ex_workers_def
        py_index_def upt_two Let_def get_terminated_env_info_eq limit_flag_def py_bool_def
        dict_get_def)

lemma ex_async_running_run:
  "\<exists>r. async_step ex_workers ex_async_running (Some [1, 1]) = Inr r"
  by (simp add: async_step_def async_send_def async_recv_def ex_async_running_def ex_running_def
        ex_workers_def py_index_def upt_two Let_def get_terminated_env_info_eq limit_flag_def
        py_bool_def dict_get_def)

lemma ex_sync_mixed_run:
  "\<exists>r. sync_step ex_workers ex_mixed (Some [0, 0]) = Inr r"
  by (simp add: sync_step_def sync_send_def sync_recv_def ex_mixed_def ex_workers_def
        py_index_def upt_two Let_def get_terminated_env_info_eq limit_flag_def py_bool_def
        dict_get_def)

lemma ex_async_mixed_run:
  "\<exists>r. async_step ex_workers ex_async_mixed (Some [0, 0]) = Inr r"
  by (simp add: async_step_def async_send_def async_recv_def ex_async_mixed_def ex_mixed_def
        ex_workers_def py_index_def upt_two Let_def get_terminated_env_info_eq limit_flag_def
        py_bool_def dict_get_def)

lemma ex_async_running_steps:
  "\<exists>r. async_step ex_workers ex_async_running (Some [2, 3]) = Inr r"
  by (simp add: step_defs ex_async_running_def ex_running_def)

lemma ex_async_running_next:
  "\<exists>r. async_step ex_workers
         (fst (projr (async_step ex_workers ex_async_running (Some [1, 1])))) (Some [0, 0]) = Inr r"
  by (simp add: step_defs ex_async_running_def ex_running_def)

section \<open>Synchronous mode: episode-limit terminations\<close>

text \<open>
  Claim C1. In a call of \<^verbatim>\<open>sync_step\<close> that returns, let worker \<open>i\<close> be not terminated
  at the start. Then \<^verbatim>\<open>actions[i]\<close> exists and, with \<open>d\<close> the worker's reply to
  \<^verbatim>\<open>("step", actions[i])\<close>: the worker's flag is set exactly when \<open>d\<close> says terminated and
  the truth value of \<^verbatim>\<open>info.get("episode_limit", False)\<close> is false. In terms of the info
  itself: when the key \<^verbatim>\<open>episode_limit\<close> is absent the flag is the reply's \<^verbatim>\<open>terminated\<close>,
  and when the key holds the number \<open>x\<close> the flag is set exactly when the reply says
  terminated and \<open>x\<close> is zero (false), so a true \<^verbatim>\<open>episode_limit\<close> never sets it. The
  batch entry is the flag. Whenever \<open>d\<close> says terminated, whatever the limit, exactly one
  terminal record is emitted for \<open>i\<close>, built from the counters after this step, and both
  counters are reset. While the flag is not set, the next call that returns sends the
  worker exactly one command, \<^verbatim>\<open>("step", actions[i])\<close> again.
\<close>

theorem sync_step_episode_limit:
  fixes w :: "'a workers"
  assumes run: "sync_step w s actions = Inr (s', sd, infos, sent)"
    and inv: "runner_inv s" and i: "i < env_batch_size s" and live: "\<not> terminated s ! i"
  shows "actions \<noteq> None \<and> i < length (the actions) \<and>
     (let d = step_reply w i (the actions ! i);
          info' = (m_info d)(''individual_rewards'' := None) in
        (terminated s' ! i \<longleftrightarrow> m_terminated d \<and> limit_flag info' = Inr False) \<and>
        (m_info d ''episode_limit'' = None \<longrightarrow> (terminated s' ! i \<longleftrightarrow> m_terminated d)) \<and>
        (\<forall>x. m_info d ''episode_limit'' = Some (Scalar x) \<longrightarrow>
             (terminated s' ! i \<longleftrightarrow> m_terminated d \<and> x = 0)) \<and>
        sd_terminated sd ! i = terminated s' ! i \<and>
        (m_terminated d \<longrightarrow>
           filter (\<lambda>p. fst p = i) infos =
             [(i, terminal_record (evaluate s) (episode_lengths s ! i + 1)
                    (episode_returns s ! i + m_reward d) info')] \<and>
           episode_lengths s' ! i = 0 \<and> episode_returns s' ! i = 0) \<and>
        (\<not> terminated s' ! i \<longrightarrow>
           (\<forall>(w2 :: 'a workers) actions2 s2 sd2 infos2 sent2.
              sync_step w2 s' actions2 = Inr (s2, sd2, infos2, sent2) \<longrightarrow>
              actions2 \<noteq> None \<and> i < length (the actions2) \<and>
              filter (\<lambda>p. fst p = i) sent2 = [(i, CStep (the actions2 ! i))])))"
proof -
  note nall = not_all_terminated[OF inv i live]
  from sync_step_running(3)[OF run inv nall i live]
  obtain a ir where a: "py_index actions i = Inr a"
    and rest: "(let d = step_reply w i a;
                  info' = (m_info d)(''individual_rewards'' := None);
                  len = episode_lengths s ! i + 1;
                  ret = episode_returns s ! i + m_reward d;
                  env_terminated = (m_terminated d \<and> limit_flag info' = Inr False)
              in (m_terminated d \<longrightarrow> (\<exists>b. limit_flag info' = Inr b)) \<and>
                 terminated s' ! i = env_terminated \<and>
                 episode_lengths s' ! i = (if m_terminated d then 0 else len) \<and>
                 episode_returns s' ! i = (if m_terminated d then 0 else ret) \<and>
                 filter (\<lambda>p. fst p = i) infos =
                   (if m_terminated d
                    then [(i, terminal_record (evaluate s) len ret info')] else []) \<and>
                 sd_terminated sd ! i = env_terminated)"
    by (auto simp: Let_def)
  from a have acts: "actions \<noteq> None" "i < length (the actions)" "a = the actions ! i"
    unfolding py_index_Inr by auto
  have inv': "runner_inv s'" and n': "env_batch_size s' = env_batch_size s"
    using sync_step_inv[OF run inv] by simp_all
  have next_call: "actions2 \<noteq> None \<and> i < length (the actions2) \<and>
                    filter (\<lambda>p. fst p = i) sent2 = [(i, CStep (the actions2 ! i))]"
    if "\<not> terminated s' ! i" "sync_step w2 s' actions2 = Inr (s2, sd2, infos2, sent2)"
    for w2 :: "'a workers" and actions2 s2 sd2 infos2 sent2
  proof -
    have i': "i < env_batch_size s'" using i n' by simp
    from sync_step_running(3)[OF that(2) inv' not_all_terminated[OF inv' i' that(1)] i' that(1)]
    obtain a2 where "py_index actions2 i = Inr a2"
      "filter (\<lambda>p. fst p = i) sent2 = [(i, CStep a2)]" by blast
    then show ?thesis unfolding py_index_Inr by auto
  qed
  define d where "d = step_reply w i (the actions ! i)"
  define info' where "info' = (m_info d)(''individual_rewards'' := None)"
  have el: "info' ''episode_limit'' = m_info d ''episode_limit''"
    by (simp add: info'_def)
  have r: "terminated s' ! i = (m_terminated d \<and> limit_flag info' = Inr False)"
    "episode_lengths s' ! i = (if m_terminated d then 0 else episode_lengths s ! i + 1)"
    "episode_returns s' ! i = (if m_terminated d then 0 else episode_returns s ! i + m_reward d)"
    "filter (\<lambda>p. fst p = i) infos =
       (if m_terminated d
        then [(i, terminal_record (evaluate s) (episode_lengths s ! i + 1)
                    (episode_returns s ! i + m_reward d) info')] else [])"
    "sd_terminated sd ! i = (m_terminated d \<and> limit_flag info' = Inr False)"
    using rest acts(3) by (simp_all add: Let_def d_def info'_def)
  have c1: "terminated s' ! i \<longleftrightarrow> m_terminated d \<and> limit_flag info' = Inr False"
    using r(1) by simp
  have c1a: "m_info d ''episode_limit'' = None \<longrightarrow> (terminated s' ! i \<longleftrightarrow> m_terminated d)"
    using r(1) limit_flag_absent[of info'] el by simp
  have c1b: "\<forall>x. m_info d ''episode_limit'' = Some (Scalar x) \<longrightarrow>
             (terminated s' ! i \<longleftrightarrow> m_terminated d \<and> x = 0)"
    using r(1) limit_flag_scalar[of info'] el by auto
  have c1c: "sd_terminated sd ! i = terminated s' ! i"
    using r(1,5) by simp
  have c2: "m_terminated d \<longrightarrow>
           filter (\<lambda>p. fst p = i) infos =
             [(i, terminal_record (evaluate s) (episode_lengths s ! i + 1)
                    (episode_returns s ! i + m_reward d) info')] \<and>
           episode_lengths s' ! i = 0 \<and> episode_returns s' ! i = 0"
    using r(2,3,4) by simp
  have c3: "\<not> terminated s' ! i \<longrightarrow>
           (\<forall>(w2 :: 'a workers) actions2 s2 sd2 infos2 sent2.
              sync_step w2 s' actions2 = Inr (s2, sd2, infos2, sent2) \<longrightarrow>
              actions2 \<noteq> None \<and> i < length (the actions2) \<and>
              filter (\<lambda>p. fst p = i) sent2 = [(i, CStep (the actions2 ! i))])"
    using next_call by blast
  have body: "(terminated s' ! i \<longleftrightarrow> m_terminated d \<and> limit_flag info' = Inr False) \<and>
        (m_info d ''episode_limit'' = None \<longrightarrow> (terminated s' ! i \<longleftrightarrow> m_terminated d)) \<and>
        (\<forall>x. m_info d ''episode_limit'' = Some (Scalar x) \<longrightarrow>
             (terminated s' ! i \<longleftrightarrow> m_terminated d \<and> x = 0)) \<and>
        sd_terminated sd ! i = terminated s' ! i \<and>
        (m_terminated d \<longrightarrow>
           filter (\<lambda>p. fst p = i) infos =
             [(i, terminal_record (evaluate s) (episode_lengths s ! i + 1)
                    (episode_returns s ! i + m_reward d) info')] \<and>
           episode_lengths s' ! i = 0 \<and> episode_returns s' ! i = 0) \<and>
        (\<not> terminated s' ! i \<longrightarrow>
           (\<forall>(w2 :: 'a workers) actions2 s2 sd2 infos2 sent2.
              sync_step w2 s' actions2 = Inr (s2, sd2, infos2, sent2) \<longrightarrow>
              actions2 \<noteq> None \<and> i < length (the actions2) \<and>
              filter (\<lambda>p. fst p = i) sent2 = [(i, CStep (the actions2 ! i))]))"
    using c1 c1a c1b c1c c2 c3 by (intro conjI)
  show ?thesis
    unfolding Let_def
    by (rule conjI[OF acts(1) conjI[OF acts(2) body[unfolded d_def info'_def]]])
qed

theorem sync_step_episode_limit_witness:
  "\<not> isl (sync_step ex_workers ex_running (Some [1, 1]))
   \<and> runner_inv ex_running
   \<and> (0::nat) < env_batch_size ex_running \<and> (1::nat) < env_batch_size ex_running
   \<and> \<not> terminated ex_running ! 0 \<and> \<not> terminated ex_running ! 1
   \<and> m_terminated (step_reply ex_workers 0 1)
   \<and> m_info (step_reply ex_workers 0 1) ''episode_limit'' = Some (Scalar 1)
   \<and> m_terminated (step_reply ex_workers 1 1)
   \<and> m_info (step_reply ex_workers 1 1) ''episode_limit'' = None
   \<and> \<not> terminated (fst (projr (sync_step ex_workers ex_running (Some [1, 1])))) ! 0
   \<and> terminated (fst (projr (sync_step ex_workers ex_running (Some [1, 1])))) ! 1
   \<and> episode_lengths (fst (projr (sync_step ex_workers ex_running (Some [1, 1])))) ! 0 = 0
   \<and> snd (hd (filter (\<lambda>p. fst p = 0)
         (fst (snd (snd (projr (sync_step ex_workers ex_running (Some [1, 1])))))))) ''episode_length''
       = Some (Scalar 4)"
proof -
  from ex_sync_running obtain s' sd infos sent where
    run: "sync_step ex_workers ex_running (Some [1, 1]) = Inr (s', sd, infos, sent)"
    by (metis prod_cases4)
  have i: "(0::nat) < env_batch_size ex_running" "(1::nat) < env_batch_size ex_running"
    and live: "\<not> terminated ex_running ! 0" "\<not> terminated ex_running ! 1"
    by (simp_all add: ex_running_def)
  have mt: "m_terminated (step_reply ex_workers 0 1)"
    "m_info (step_reply ex_workers 0 1) ''episode_limit'' = Some (Scalar 1)"
    "m_terminated (step_reply ex_workers 1 1)"
    "m_info (step_reply ex_workers 1 1) ''episode_limit'' = None"
    by (simp_all add: ex_workers_def)
  have sel: "the (Some [1, 1::nat]) ! 0 = 1" "the (Some [1, 1::nat]) ! 1 = 1"
    by simp_all
  note C0 = sync_step_episode_limit[OF run runner_inv_ex_running i(1) live(1),
      unfolded Let_def sel, THEN conjunct2, THEN conjunct2]
  have f0a: "\<not> terminated s' ! 0"
    using C0[THEN conjunct2, THEN conjunct2, THEN conjunct1, rule_format, OF mt(2)] by simp
  have f0b: "filter (\<lambda>p. fst p = 0) infos =
             [(0, terminal_record (evaluate ex_running) (episode_lengths ex_running ! 0 + 1)
                    (episode_returns ex_running ! 0 + m_reward (step_reply ex_workers 0 1))
                    ((m_info (step_reply ex_workers 0 1))(''individual_rewards'' := None)))]"
    "episode_lengths s' ! 0 = 0"
    using C0[THEN conjunct2, THEN conjunct2, THEN conjunct2, THEN conjunct2, THEN conjunct1,
        rule_format, OF mt(1)] by simp_all
  have f0c: "snd (hd (filter (\<lambda>p. fst p = 0) infos)) ''episode_length'' = Some (Scalar 4)"
    unfolding f0b(1)
    by (simp add: terminal_record_plain ex_running_def ex_workers_def dict_get_def)
  note f0 = f0a f0b(2) f0c
  note C1 = sync_step_episode_limit[OF run runner_inv_ex_running i(2) live(2),
      unfolded Let_def sel, THEN conjunct2, THEN conjunct2]
  have f1: "terminated s' ! 1"
    using C1[THEN conjunct2, THEN conjunct1, rule_format, OF mt(4)] mt(3) by simp
  show ?thesis
    using f0 f1 mt run runner_inv_ex_running i live by simp
qed

section \<open>Asynchronous mode: episode-limit terminations\<close>

text \<open>
  Claim C2, as first stated: in asynchronous mode the \<^verbatim>\<open>episode_limit\<close> override is
  omitted, so any reply with \<^verbatim>\<open>terminated=True\<close> sets the worker's flag. It does not:
  worker 0 is running, its reply to action 1 says terminated with a true
  \<^verbatim>\<open>episode_limit\<close>, and after the call its flag is still false.
\<close>

theorem async_step_episode_limit_counterexample:
  "asynchronous_env (rargs ex_async_running)
   \<and> \<not> isl (async_step ex_workers ex_async_running (Some [1, 1]))
   \<and> \<not> terminated ex_async_running ! 0
   \<and> m_terminated (step_reply ex_workers 0 1)
   \<and> limit_flag (m_info (step_reply ex_workers 0 1)) = Inr True
   \<and> \<not> terminated (fst (projr (async_step ex_workers ex_async_running (Some [1, 1])))) ! 0"
  by (simp add: async_step_def async_send_def async_recv_def ex_async_running_def ex_running_def
        ex_workers_def py_index_def upt_two Let_def get_terminated_env_info_eq limit_flag_def
        py_bool_def dict_get_def)

text \<open>
  Claim C2, amended: \<^verbatim>\<open>async_step\<close> applies the same override as \<^verbatim>\<open>sync_step\<close>. For a
  worker that was stepping, \<^verbatim>\<open>actions[i]\<close> exists and, with \<open>d\<close> the reply to
  \<^verbatim>\<open>("step", actions[i])\<close>: the flag is set exactly when \<open>d\<close> says terminated and the truth
  value of \<^verbatim>\<open>info.get("episode_limit", False)\<close> is false. When the key \<^verbatim>\<open>episode_limit\<close>
  is absent the flag is the reply's \<^verbatim>\<open>terminated\<close>; when the key holds the number \<open>x\<close> the
  flag is set exactly when the reply says terminated and \<open>x\<close> is zero, so with a true
  \<^verbatim>\<open>episode_limit\<close> the flag and the batch entry stay false. The terminal record is
  emitted whenever the reply says terminated.
\<close>

theorem async_step_episode_limit:
  fixes w :: "'a workers"
  assumes run: "async_step w s actions = Inr (s', sd, infos, sent)"
    and inv: "runner_inv s" and i: "i < env_batch_size s" and live: "\<not> terminated s ! i"
  shows "actions \<noteq> None \<and> i < length (the actions) \<and>
     (let d = step_reply w i (the actions ! i) in
        (terminated s' ! i \<longleftrightarrow> m_terminated d \<and> limit_flag (m_info d) = Inr False) \<and>
        (m_info d ''episode_limit'' = None \<longrightarrow> (terminated s' ! i \<longleftrightarrow> m_terminated d)) \<and>
        (\<forall>x. m_info d ''episode_limit'' = Some (Scalar x) \<longrightarrow>
             (terminated s' ! i \<longleftrightarrow> m_terminated d \<and> x = 0)) \<and>
        sd_terminated sd ! i = terminated s' ! i \<and>
        (m_terminated d \<longrightarrow>
           filter (\<lambda>p. fst p = i) infos =
             [(i, terminal_record (evaluate s) (episode_lengths s ! i + 1)
                    (episode_returns s ! i + m_reward d) (m_info d))]))"
proof -
  from async_step_run(3)[OF run inv i live]
  obtain a ir where a: "py_index actions i = Inr a"
    and rest: "(let d = step_reply w i a;
                  len = episode_lengths s ! i + 1;
                  ret = episode_returns s ! i + m_reward d;
                  env_terminated = (m_terminated d \<and> limit_flag (m_info d) = Inr False)
              in terminated s' ! i = env_terminated \<and>
                 filter (\<lambda>p. fst p = i) infos =
                   (if m_terminated d
                    then [(i, terminal_record (evaluate s) len ret (m_info d))] else []) \<and>
                 sd_terminated sd ! i = env_terminated)"
    by (auto simp: Let_def)
  from a have acts: "actions \<noteq> None" "i < length (the actions)" "a = the actions ! i"
    unfolding py_index_Inr by auto
  define d where "d = step_reply w i (the actions ! i)"
  have r: "terminated s' ! i = (m_terminated d \<and> limit_flag (m_info d) = Inr False)"
    "filter (\<lambda>p. fst p = i) infos =
       (if m_terminated d
        then [(i, terminal_record (evaluate s) (episode_lengths s ! i + 1)
                    (episode_returns s ! i + m_reward d) (m_info d))] else [])"
    "sd_terminated sd ! i = (m_terminated d \<and> limit_flag (m_info d) = Inr False)"
    using rest acts(3) by (simp_all add: Let_def d_def)
  have c1: "terminated s' ! i \<longleftrightarrow> m_terminated d \<and> limit_flag (m_info d) = Inr False"
    using r(1) by simp
  have c1a: "m_info d ''episode_limit'' = None \<longrightarrow> (terminated s' ! i \<longleftrightarrow> m_terminated d)"
    using r(1) limit_flag_absent[of "m_info d"] by simp
  have c1b: "\<forall>x. m_info d ''episode_limit'' = Some (Scalar x) \<longrightarrow>
             (terminated s' ! i \<longleftrightarrow> m_terminated d \<and> x = 0)"
    using r(1) limit_flag_scalar[of "m_info d"] by auto
  have c1c: "sd_terminated sd ! i = terminated s' ! i"
    using r(1,3) by simp
  have c2: "m_terminated d \<longrightarrow>
           filter (\<lambda>p. fst p = i) infos =
             [(i, terminal_record (evaluate s) (episode_lengths s ! i + 1)
                    (episode_returns s ! i + m_reward d) (m_info d))]"
    using r(2) by simp
  have body: "(terminated s' ! i \<longleftrightarrow> m_terminated d \<and> limit_flag (m_info d) = Inr False) \<and>
        (m_info d ''episode_limit'' = None \<longrightarrow> (terminated s' ! i \<longleftrightarrow> m_terminated d)) \<and>
        (\<forall>x. m_info d ''episode_limit'' = Some (Scalar x) \<longrightarrow>
             (terminated s' ! i \<longleftrightarrow> m_terminated d \<and> x = 0)) \<and>
        sd_terminated sd ! i = terminated s' ! i \<and>
        (m_terminated d \<longrightarrow>
           filter (\<lambda>p. fst p = i) infos =
             [(i, terminal_record (evaluate s) (episode_lengths s ! i + 1)
                    (episode_returns s ! i + m_reward d) (m_info d))])"
    by (rule conjI[OF c1 conjI[OF c1a conjI[OF c1b conjI[OF c1c c2]]]])
  show ?thesis
    unfolding Let_def
    by (rule conjI[OF acts(1) conjI[OF acts(2) body[unfolded d_def]]])
qed

theorem async_step_episode_limit_witness:
  "\<not> isl (async_step ex_workers ex_async_running (Some [1, 1]))
   \<and> runner_inv ex_async_running
   \<and> (0::nat) < env_batch_size ex_async_running \<and> (1::nat) < env_batch_size ex_async_running
   \<and> \<not> terminated ex_async_running ! 0 \<and> \<not> terminated ex_async_running ! 1
   \<and> m_terminated (step_reply ex_workers 0 1)
   \<and> m_info (step_reply ex_workers 0 1) ''episode_limit'' = Some (Scalar 1)
   \<and> m_terminated (step_reply ex_workers 1 1)
   \<and> m_info (step_reply ex_workers 1 1) ''episode_limit'' = None
   \<and> \<not> terminated (fst (projr (async_step ex_workers ex_async_running (Some [1, 1])))) ! 0
   \<and> terminated (fst (projr (async_step ex_workers ex_async_running (Some [1, 1])))) ! 1
   \<and> snd (hd (filter (\<lambda>p. fst p = 0)
         (fst (snd (snd (projr (async_step ex_workers ex_async_running (Some [1, 1])))))))) ''episode_length''
       = Some (Scalar 4)"
proof -
  from ex_async_running_run obtain s' sd infos sent where
    run: "async_step ex_workers ex_async_running (Some [1, 1]) = Inr (s', sd, infos, sent)"
    by (metis prod_cases4)
  have i: "(0::nat) < env_batch_size ex_async_running"
          "(1::nat) < env_batch_size ex_async_running"
    and live: "\<not> terminated ex_async_running ! 0" "\<not> terminated ex_async_running ! 1"
    by (simp_all add: ex_async_running_def ex_running_def)
  have mt: "m_terminated (step_reply ex_workers 0 1)"
    "m_info (step_reply ex_workers 0 1) ''episode_limit'' = Some (Scalar 1)"
    "m_terminated (step_reply ex_workers 1 1)"
    "m_info (step_reply ex_workers 1 1) ''episode_limit'' = None"
    by (simp_all add: ex_workers_def)
  have sel: "the (Some [1, 1::nat]) ! 0 = 1" "the (Some [1, 1::nat]) ! 1 = 1"
    by simp_all
  note C0 = async_step_episode_limit[OF run runner_inv_ex_async_running i(1) live(1),
      unfolded Let_def sel, THEN conjunct2, THEN conjunct2]
  have f0a: "\<not> terminated s' ! 0"
    using C0[THEN conjunct2, THEN conjunct2, THEN conjunct1, rule_format, OF mt(2)] by simp
  have f0b: "filter (\<lambda>p. fst p = 0) infos =
             [(0, terminal_record (evaluate ex_async_running)
                    (episode_lengths ex_async_running ! 0 + 1)
                    (episode_returns ex_async_running ! 0 + m_reward (step_reply ex_workers 0 1))
                    (m_info (step_reply ex_workers 0 1)))]"
    using C0[THEN conjunct2, THEN conjunct2, THEN conjunct2, THEN conjunct2,
        rule_format, OF mt(1)] by simp
  have f0c: "snd (hd (filter (\<lambda>p. fst p = 0) infos)) ''episode_length'' = Some (Scalar 4)"
    unfolding f0b
    by (simp add: terminal_record_plain ex_async_running_def ex_running_def ex_workers_def
          dict_get_def)
  note C1 = async_step_episode_limit[OF run runner_inv_ex_async_running i(2) live(2),
      unfolded Let_def sel, THEN conjunct2, THEN conjunct2]
  have f1: "terminated s' ! 1"
    using C1[THEN conjunct2, THEN conjunct1, rule_format, OF mt(4)] mt(3) by simp
  show ?thesis
    using f0a f0c f1 mt run runner_inv_ex_async_running i live by simp
qed

section \<open>Shape of the batch output\<close>

text \<open>
  Claim C4. In both modes, each of the six fields of the step data that a call of
  \<^verbatim>\<open>step\<close> returns (state, obs, avail_actions, reward, individual_rewards, terminated)
  has exactly N entries, and in each field entry \<open>i\<close> belongs to worker \<open>i\<close>. For a worker
  marked terminated at the start the entry has reward 0, terminated false and zero
  individual rewards, and its state, obs and avail_actions are those of that worker's
  reset reply (asynchronous mode, or the full-batch reset) or else the placeholders of
  the configured shapes. For a worker that was stepping, \<^verbatim>\<open>actions[i]\<close> exists and the
  entry holds the state, obs, avail_actions and reward of that worker's reply to
  \<^verbatim>\<open>("step", actions[i])\<close>, the reply's \<^verbatim>\<open>individual_rewards\<close> with one more axis, and as
  terminated the worker's new flag: the reply's \<^verbatim>\<open>terminated\<close> when the info has no
  \<^verbatim>\<open>episode_limit\<close>, and the reply's \<^verbatim>\<open>terminated\<close> together with a zero limit when the
  info holds the number \<open>x\<close> under that key.
\<close>

theorem step_output_lengths:
  fixes w :: "'a workers"
  assumes run: "step w s actions = Inr (s', sd, infos, sent)" and inv: "runner_inv s"
  shows "length (sd_state sd) = env_batch_size s \<and>
         length (sd_obs sd) = env_batch_size s \<and>
         length (sd_avail_actions sd) = env_batch_size s \<and>
         length (sd_reward sd) = env_batch_size s \<and>
         length (sd_individual_rewards sd) = env_batch_size s \<and>
         length (sd_terminated sd) = env_batch_size s \<and>
         (\<forall>i<env_batch_size s.
            (terminated s ! i \<longrightarrow>
               sd_reward sd ! i = 0 \<and> sd_terminated sd ! i = False \<and>
               sd_individual_rewards sd ! i = np_zeros [n_agents (rargs s), 1] \<and>
               (if asynchronous_env (rargs s) \<or> list_all (\<lambda>b. b) (terminated s)
                then sd_state sd ! i = r_state (reset_reply w i) \<and>
                     sd_obs sd ! i = r_obs (reset_reply w i) \<and>
                     sd_avail_actions sd ! i = r_avail_actions (reset_reply w i)
                else sd_state sd ! i = np_zeros [state_shape (rargs s)] \<and>
                     sd_obs sd ! i = np_zeros [n_agents (rargs s), obs_shape (rargs s)] \<and>
                     sd_avail_actions sd ! i =
                       np_ones [n_agents (rargs s), n_actions (rargs s)])) \<and>
            (\<not> terminated s ! i \<longrightarrow>
               actions \<noteq> None \<and> i < length (the actions) \<and>
               sd_state sd ! i = m_state (step_reply w i (the actions ! i)) \<and>
               sd_obs sd ! i = m_obs (step_reply w i (the actions ! i)) \<and>
               sd_avail_actions sd ! i = m_avail_actions (step_reply w i (the actions ! i)) \<and>
               sd_reward sd ! i = m_reward (step_reply w i (the actions ! i)) \<and>
               m_info (step_reply w i (the actions ! i)) ''individual_rewards'' \<noteq> None \<and>
               sd_individual_rewards sd ! i =
                 expand_dims (the (m_info (step_reply w i (the actions ! i)) ''individual_rewards'')) \<and>
               sd_terminated sd ! i = terminated s' ! i \<and>
               (m_info (step_reply w i (the actions ! i)) ''episode_limit'' = None \<longrightarrow>
                  sd_terminated sd ! i = m_terminated (step_reply w i (the actions ! i))) \<and>
               (\<forall>x. m_info (step_reply w i (the actions ! i)) ''episode_limit'' = Some (Scalar x)
                  \<longrightarrow> sd_terminated sd ! i =
                        (m_terminated (step_reply w i (the actions ! i)) \<and> x = 0))))"
  (is "?l1 \<and> ?l2 \<and> ?l3 \<and> ?l4 \<and> ?l5 \<and> ?l6 \<and> (\<forall>i<env_batch_size s. ?D i \<and> ?V i)")
proof -
  have live_sync: "(\<not> terminated s ! i \<longrightarrow>
                 actions \<noteq> None \<and> i < length (the actions) \<and>
                 sd_state sd ! i = m_state (step_reply w i (the actions ! i)) \<and>
                 sd_obs sd ! i = m_obs (step_reply w i (the actions ! i)) \<and>
                 sd_avail_actions sd ! i = m_avail_actions (step_reply w i (the actions ! i)) \<and>
                 sd_reward sd ! i = m_reward (step_reply w i (the actions ! i)) \<and>
                 m_info (step_reply w i (the actions ! i)) ''individual_rewards'' \<noteq> None \<and>
                 sd_individual_rewards sd ! i =
                   expand_dims (the (m_info (step_reply w i (the actions ! i)) ''individual_rewards'')) \<and>
                 sd_terminated sd ! i = terminated s' ! i \<and>
                 (m_info (step_reply w i (the actions ! i)) ''episode_limit'' = None \<longrightarrow>
                    sd_terminated sd ! i = m_terminated (step_reply w i (the actions ! i))) \<and>
                 (\<forall>x. m_info (step_reply w i (the actions ! i)) ''episode_limit'' = Some (Scalar x)
                    \<longrightarrow> sd_terminated sd ! i =
                          (m_terminated (step_reply w i (the actions ! i)) \<and> x = 0)))"
    if r: "sync_step w s actions = Inr (s', sd, infos, sent)"
      and nall: "\<not> list_all (\<lambda>b. b) (terminated s)" and i: "i < env_batch_size s" for i
  proof
    assume f: "\<not> terminated s ! i"
    from sync_step_running(3)[OF r inv nall i f]
    obtain a ir where a: "py_index actions i = Inr a"
      and ir: "m_info (step_reply w i a) ''individual_rewards'' = Some ir"
      and rest: "terminated s' ! i =
                   (m_terminated (step_reply w i a) \<and>
                    limit_flag ((m_info (step_reply w i a))(''individual_rewards'' := None))
                      = Inr False)"
        "sd_reward sd ! i = m_reward (step_reply w i a)"
        "sd_individual_rewards sd ! i = expand_dims ir"
        "sd_terminated sd ! i =
                   (m_terminated (step_reply w i a) \<and>
                    limit_flag ((m_info (step_reply w i a))(''individual_rewards'' := None))
                      = Inr False)"
        "sd_state sd ! i = m_state (step_reply w i a)"
        "sd_avail_actions sd ! i = m_avail_actions (step_reply w i a)"
        "sd_obs sd ! i = m_obs (step_reply w i a)"
      by (auto simp: Let_def)
    from a have acts: "actions \<noteq> None" "i < length (the actions)" "a = the actions ! i"
      unfolding py_index_Inr by auto
    define d where "d = step_reply w i (the actions ! i)"
    have da: "step_reply w i a = d" using acts(3) by (simp add: d_def)
    note R = rest[unfolded da] and IR = ir[unfolded da]
    have el: "((m_info d)(''individual_rewards'' := None)) ''episode_limit''
                = m_info d ''episode_limit''" by simp
    have t1: "m_info d ''episode_limit'' = None \<longrightarrow> sd_terminated sd ! i = m_terminated d"
      using R(4) limit_flag_absent[of "(m_info d)(''individual_rewards'' := None)"] el by simp
    have t2: "\<forall>x. m_info d ''episode_limit'' = Some (Scalar x) \<longrightarrow>
                sd_terminated sd ! i = (m_terminated d \<and> x = 0)"
      using R(4) limit_flag_scalar[of "(m_info d)(''individual_rewards'' := None)"] el by auto
    have t0: "sd_terminated sd ! i = terminated s' ! i" using R(1,4) by simp
    have i1: "m_info d ''individual_rewards'' \<noteq> None"
      and i2: "sd_individual_rewards sd ! i = expand_dims (the (m_info d ''individual_rewards''))"
      using IR R(3) by simp_all
    show "actions \<noteq> None \<and> i < length (the actions) \<and>
               sd_state sd ! i = m_state (step_reply w i (the actions ! i)) \<and>
               sd_obs sd ! i = m_obs (step_reply w i (the actions ! i)) \<and>
               sd_avail_actions sd ! i = m_avail_actions (step_reply w i (the actions ! i)) \<and>
               sd_reward sd ! i = m_reward (step_reply w i (the actions ! i)) \<and>
               m_info (step_reply w i (the actions ! i)) ''individual_rewards'' \<noteq> None \<and>
               sd_individual_rewards sd ! i =
                 expand_dims (the (m_info (step_reply w i (the actions ! i)) ''individual_rewards'')) \<and>
               sd_terminated sd ! i = terminated s' ! i \<and>
               (m_info (step_reply w i (the actions ! i)) ''episode_limit'' = None \<longrightarrow>
                  sd_terminated sd ! i = m_terminated (step_reply w i (the actions ! i))) \<and>
               (\<forall>x. m_info (step_reply w i (the actions ! i)) ''episode_limit'' = Some (Scalar x)
                  \<longrightarrow> sd_terminated sd ! i =
                        (m_terminated (step_reply w i (the actions ! i)) \<and> x = 0))"
      using acts(1,2) R(5) R(7) R(6) R(2) i1 i2 t0 t1 t2 unfolding d_def by (intro conjI)
  qed
  have live_async: "(\<not> terminated s ! i \<longrightarrow>
                 actions \<noteq> None \<and> i < length (the actions) \<and>
                 sd_state sd ! i = m_state (step_reply w i (the actions ! i)) \<and>
                 sd_obs sd ! i = m_obs (step_reply w i (the actions ! i)) \<and>
                 sd_avail_actions sd ! i = m_avail_actions (step_reply w i (the actions ! i)) \<and>
                 sd_reward sd ! i = m_reward (step_reply w i (the actions ! i)) \<and>
                 m_info (step_reply w i (the actions ! i)) ''individual_rewards'' \<noteq> None \<and>
                 sd_individual_rewards sd ! i =
                   expand_dims (the (m_info (step_reply w i (the actions ! i)) ''individual_rewards'')) \<and>
                 sd_terminated sd ! i = terminated s' ! i \<and>
                 (m_info (step_reply w i (the actions ! i)) ''episode_limit'' = None \<longrightarrow>
                    sd_terminated sd ! i = m_terminated (step_reply w i (the actions ! i))) \<and>
                 (\<forall>x. m_info (step_reply w i (the actions ! i)) ''episode_limit'' = Some (Scalar x)
                    \<longrightarrow> sd_terminated sd ! i =
                          (m_terminated (step_reply w i (the actions ! i)) \<and> x = 0)))"
    if r: "async_step w s actions = Inr (s', sd, infos, sent)" and i: "i < env_batch_size s" for i
  proof
    assume f: "\<not> terminated s ! i"
    from async_step_run(3)[OF r inv i f]
    obtain a ir where a: "py_index actions i = Inr a"
      and ir: "m_info (step_reply w i a) ''individual_rewards'' = Some ir"
      and rest: "terminated s' ! i =
                   (m_terminated (step_reply w i a) \<and>
                    limit_flag (m_info (step_reply w i a)) = Inr False)"
        "sd_reward sd ! i = m_reward (step_reply w i a)"
        "sd_individual_rewards sd ! i = expand_dims ir"
        "sd_terminated sd ! i =
                   (m_terminated (step_reply w i a) \<and>
                    limit_flag (m_info (step_reply w i a)) = Inr False)"
        "sd_state sd ! i = m_state (step_reply w i a)"
        "sd_avail_actions sd ! i = m_avail_actions (step_reply w i a)"
        "sd_obs sd ! i = m_obs (step_reply w i a)"
      by (auto simp: Let_def)
    from a have acts: "actions \<noteq> None" "i < length (the actions)" "a = the actions ! i"
      unfolding py_index_Inr by auto
    define d where "d = step_reply w i (the actions ! i)"
    have da: "step_reply w i a = d" using acts(3) by (simp add: d_def)
    note R = rest[unfolded da] and IR = ir[unfolded da]
    have t1: "m_info d ''episode_limit'' = None \<longrightarrow> sd_terminated sd ! i = m_terminated d"
      using R(4) limit_flag_absent[of "m_info d"] by simp
    have t2: "\<forall>x. m_info d ''episode_limit'' = Some (Scalar x) \<longrightarrow>
                sd_terminated sd ! i = (m_terminated d \<and> x = 0)"
      using R(4) limit_flag_scalar[of "m_info d"] by auto
    have t0: "sd_terminated sd ! i = terminated s' ! i" using R(1,4) by simp
    have i1: "m_info d ''individual_rewards'' \<noteq> None"
      and i2: "sd_individual_rewards sd ! i = expand_dims (the (m_info d ''individual_rewards''))"
      using IR R(3) by simp_all
    show "actions \<noteq> None \<and> i < length (the actions) \<and>
               sd_state sd ! i = m_state (step_reply w i (the actions ! i)) \<and>
               sd_obs sd ! i = m_obs (step_reply w i (the actions ! i)) \<and>
               sd_avail_actions sd ! i = m_avail_actions (step_reply w i (the actions ! i)) \<and>
               sd_reward sd ! i = m_reward (step_reply w i (the actions ! i)) \<and>
               m_info (step_reply w i (the actions ! i)) ''individual_rewards'' \<noteq> None \<and>
               sd_individual_rewards sd ! i =
                 expand_dims (the (m_info (step_reply w i (the actions ! i)) ''individual_rewards'')) \<and>
               sd_terminated sd ! i = terminated s' ! i \<and>
               (m_info (step_reply w i (the actions ! i)) ''episode_limit'' = None \<longrightarrow>
                  sd_terminated sd ! i = m_terminated (step_reply w i (the actions ! i))) \<and>
               (\<forall>x. m_info (step_reply w i (the actions ! i)) ''episode_limit'' = Some (Scalar x)
                  \<longrightarrow> sd_terminated sd ! i =
                        (m_terminated (step_reply w i (the actions ! i)) \<and> x = 0))"
      using acts(1,2) R(5) R(7) R(6) R(2) i1 i2 t0 t1 t2 unfolding d_def by (intro conjI)
  qed
  show ?thesis
  proof (cases "asynchronous_env (rargs s)")
    case True
    with run have r: "async_step w s actions = Inr (s', sd, infos, sent)" by (simp add: step_def)
    have dead: "(terminated s ! i \<longrightarrow>
                 sd_reward sd ! i = 0 \<and> sd_terminated sd ! i = False \<and>
                 sd_individual_rewards sd ! i = np_zeros [n_agents (rargs s), 1] \<and>
                 (if asynchronous_env (rargs s) \<or> list_all (\<lambda>b. b) (terminated s)
                  then sd_state sd ! i = r_state (reset_reply w i) \<and>
                       sd_obs sd ! i = r_obs (reset_reply w i) \<and>
                       sd_avail_actions sd ! i = r_avail_actions (reset_reply w i)
                  else sd_state sd ! i = np_zeros [state_shape (rargs s)] \<and>
                       sd_obs sd ! i = np_zeros [n_agents (rargs s), obs_shape (rargs s)] \<and>
                       sd_avail_actions sd ! i =
                         np_ones [n_agents (rargs s), n_actions (rargs s)]))"
      if "i < env_batch_size s" for i
    proof
      assume t: "terminated s ! i"
      from async_step_run(2)[OF r inv that t] True
      show "sd_reward sd ! i = 0 \<and> sd_terminated sd ! i = False \<and>
               sd_individual_rewards sd ! i = np_zeros [n_agents (rargs s), 1] \<and>
               (if asynchronous_env (rargs s) \<or> list_all (\<lambda>b. b) (terminated s)
                then sd_state sd ! i = r_state (reset_reply w i) \<and>
                     sd_obs sd ! i = r_obs (reset_reply w i) \<and>
                     sd_avail_actions sd ! i = r_avail_actions (reset_reply w i)
                else sd_state sd ! i = np_zeros [state_shape (rargs s)] \<and>
                     sd_obs sd ! i = np_zeros [n_agents (rargs s), obs_shape (rargs s)] \<and>
                     sd_avail_actions sd ! i =
                       np_ones [n_agents (rargs s), n_actions (rargs s)])"
        by simp
    qed
    from async_step_run(1)[OF r inv]
    have L: "?l1" "?l2" "?l3" "?l4" "?l5" "?l6" by simp_all
    have P: "\<forall>i<env_batch_size s. ?D i \<and> ?V i"
    proof (intro allI impI)
      fix i assume i: "i < env_batch_size s"
      show "?D i \<and> ?V i" by (rule conjI[OF dead[OF i] live_async[OF r i]])
    qed
    show ?thesis by (intro conjI) (rule L P)+
  next
    case False
    with run have r: "sync_step w s actions = Inr (s', sd, infos, sent)" by (simp add: step_def)
    show ?thesis
    proof (cases "list_all (\<lambda>b. b) (terminated s)")
      case True
      have l: "length (terminated s) = env_batch_size s" using inv by (simp add: runner_inv_def)
      from r sync_step_all_terminated[OF True, of w actions]
      have sd: "sd = \<lparr> sd_state = map (\<lambda>i. r_state (reset_reply w i)) [0..<env_batch_size s],
            sd_avail_actions = map (\<lambda>i. r_avail_actions (reset_reply w i)) [0..<env_batch_size s],
            sd_obs = map (\<lambda>i. r_obs (reset_reply w i)) [0..<env_batch_size s],
            sd_reward = map (\<lambda>i. 0) [0..<env_batch_size s],
            sd_individual_rewards =
              map (\<lambda>i. np_zeros [n_agents (rargs s), 1]) [0..<env_batch_size s],
            sd_terminated = map (\<lambda>i. False) [0..<env_batch_size s] \<rparr>"
        by simp
      have "terminated s ! i" if "i < env_batch_size s" for i
        using True that l by (simp add: list_all_length)
      then show ?thesis using True by (simp add: sd)
    next
      case nall: False
      have dead: "(terminated s ! i \<longrightarrow>
                 sd_reward sd ! i = 0 \<and> sd_terminated sd ! i = False \<and>
                 sd_individual_rewards sd ! i = np_zeros [n_agents (rargs s), 1] \<and>
                 (if asynchronous_env (rargs s) \<or> list_all (\<lambda>b. b) (terminated s)
                  then sd_state sd ! i = r_state (reset_reply w i) \<and>
                       sd_obs sd ! i = r_obs (reset_reply w i) \<and>
                       sd_avail_actions sd ! i = r_avail_actions (reset_reply w i)
                  else sd_state sd ! i = np_zeros [state_shape (rargs s)] \<and>
                       sd_obs sd ! i = np_zeros [n_agents (rargs s), obs_shape (rargs s)] \<and>
                       sd_avail_actions sd ! i =
                         np_ones [n_agents (rargs s), n_actions (rargs s)]))"
        if "i < env_batch_size s" for i
      proof
        assume t: "terminated s ! i"
        from sync_step_running(2)[OF r inv nall that t] False nall
        show "sd_reward sd ! i = 0 \<and> sd_terminated sd ! i = False \<and>
               sd_individual_rewards sd ! i = np_zeros [n_agents (rargs s), 1] \<and>
               (if asynchronous_env (rargs s) \<or> list_all (\<lambda>b. b) (terminated s)
                then sd_state sd ! i = r_state (reset_reply w i) \<and>
                     sd_obs sd ! i = r_obs (reset_reply w i) \<and>
                     sd_avail_actions sd ! i = r_avail_actions (reset_reply w i)
                else sd_state sd ! i = np_zeros [state_shape (rargs s)] \<and>
                     sd_obs sd ! i = np_zeros [n_agents (rargs s), obs_shape (rargs s)] \<and>
                     sd_avail_actions sd ! i =
                       np_ones [n_agents (rargs s), n_actions (rargs s)])"
          by simp
      qed
      from sync_step_running(1)[OF r inv nall]
      have L: "?l1" "?l2" "?l3" "?l4" "?l5" "?l6" by simp_all
      have P: "\<forall>i<env_batch_size s. ?D i \<and> ?V i"
      proof (intro allI impI)
        fix i assume i: "i < env_batch_size s"
        show "?D i \<and> ?V i" by (rule conjI[OF dead[OF i] live_sync[OF r nall i]])
      qed
      show ?thesis by (intro conjI) (rule L P)+
    qed
  qed
qed

theorem step_output_lengths_witness:
  "\<not> isl (step ex_workers ex_mixed (Some [0, 0])) \<and> runner_inv ex_mixed
   \<and> env_batch_size ex_mixed = 2 \<and> \<not> terminated ex_mixed ! 0 \<and> terminated ex_mixed ! 1
   \<and> length (sd_state (fst (snd (projr (step ex_workers ex_mixed (Some [0, 0])))))) = 2 \<and> length (sd_obs (fst (snd (projr (step ex_workers ex_mixed (Some [0, 0])))))) = 2
   \<and> length (sd_avail_actions (fst (snd (projr (step ex_workers ex_mixed (Some [0, 0])))))) = 2 \<and> length (sd_reward (fst (snd (projr (step ex_workers ex_mixed (Some [0, 0])))))) = 2
   \<and> length (sd_individual_rewards (fst (snd (projr (step ex_workers ex_mixed (Some [0, 0])))))) = 2 \<and> length (sd_terminated (fst (snd (projr (step ex_workers ex_mixed (Some [0, 0])))))) = 2
   \<and> sd_state (fst (snd (projr (step ex_workers ex_mixed (Some [0, 0]))))) ! 0 = Nd [Scalar 1, Scalar 2]
   \<and> sd_obs (fst (snd (projr (step ex_workers ex_mixed (Some [0, 0]))))) ! 0 = Nd [Nd [Scalar 3], Nd [Scalar 4]]
   \<and> sd_avail_actions (fst (snd (projr (step ex_workers ex_mixed (Some [0, 0]))))) ! 0
       = Nd [Nd [Scalar 1, Scalar 0, Scalar 1], Nd [Scalar 1, Scalar 1, Scalar 0]]
   \<and> sd_reward (fst (snd (projr (step ex_workers ex_mixed (Some [0, 0]))))) ! 0 = 2
   \<and> sd_individual_rewards (fst (snd (projr (step ex_workers ex_mixed (Some [0, 0]))))) ! 0 = Nd [Nd [Scalar 1], Nd [Scalar 1]]
   \<and> sd_terminated (fst (snd (projr (step ex_workers ex_mixed (Some [0, 0]))))) ! 0 = False
   \<and> sd_state (fst (snd (projr (step ex_workers ex_mixed (Some [0, 0]))))) ! 1 = Nd [Scalar 0, Scalar 0]
   \<and> sd_obs (fst (snd (projr (step ex_workers ex_mixed (Some [0, 0]))))) ! 1 = Nd [Nd [Scalar 0], Nd [Scalar 0]]
   \<and> sd_avail_actions (fst (snd (projr (step ex_workers ex_mixed (Some [0, 0]))))) ! 1
       = Nd [Nd [Scalar 1, Scalar 1, Scalar 1], Nd [Scalar 1, Scalar 1, Scalar 1]]
   \<and> sd_reward (fst (snd (projr (step ex_workers ex_mixed (Some [0, 0]))))) ! 1 = 0
   \<and> sd_individual_rewards (fst (snd (projr (step ex_workers ex_mixed (Some [0, 0]))))) ! 1 = Nd [Nd [Scalar 0], Nd [Scalar 0]]
   \<and> sd_terminated (fst (snd (projr (step ex_workers ex_mixed (Some [0, 0]))))) ! 1 = False"
proof -
  have m: "\<not> asynchronous_env (rargs ex_mixed)"
    by (simp add: ex_mixed_def ex_args_def)
  from ex_sync_mixed_run m obtain s1 sd1 infos1 sent1 where
    run1: "step ex_workers ex_mixed (Some [0, 0]) = Inr (s1, sd1, infos1, sent1)"
    unfolding step_def by (metis prod_cases4)
  note th = step_output_lengths[OF run1 runner_inv_ex_mixed]
  have n: "env_batch_size ex_mixed = 2" and t: "terminated ex_mixed = [False, True]"
    by (simp_all add: ex_mixed_def)
  have na: "\<not> list_all (\<lambda>b. b) (terminated ex_mixed)" by (simp add: t)
  have sh: "n_agents (rargs ex_mixed) = 2" "n_actions (rargs ex_mixed) = 3"
    "state_shape (rargs ex_mixed) = 2" "obs_shape (rargs ex_mixed) = 1"
    by (simp_all add: ex_mixed_def ex_args_def)
  have i: "(0::nat) < env_batch_size ex_mixed" "(1::nat) < env_batch_size ex_mixed"
    by (simp_all add: n)
  have t0: "\<not> terminated ex_mixed ! 0" and t1: "terminated ex_mixed ! 1" by (simp_all add: t)
  have sel: "the (Some [0, 0::nat]) ! 0 = 0" by simp
  have d0: "step_reply ex_workers 0 0 =
      \<lparr> m_state = Nd [Scalar 1, Scalar 2],
        m_avail_actions = Nd [Nd [Scalar 1, Scalar 0, Scalar 1], Nd [Scalar 1, Scalar 1, Scalar 0]],
        m_obs = Nd [Nd [Scalar 3], Nd [Scalar 4]],
        m_reward = 2, m_terminated = False,
        m_info = m_info (step_reply ex_workers 0 0) \<rparr>"
    by (simp add: ex_workers_def)
  have inf0: "m_info (step_reply ex_workers 0 0) ''individual_rewards''
                = Some (Nd [Scalar 1, Scalar 1])"
    "m_info (step_reply ex_workers 0 0) ''episode_limit'' = Some (Scalar 1)"
    by (simp_all add: ex_workers_def)
  have l: "length (sd_state sd1) = 2" "length (sd_obs sd1) = 2"
    "length (sd_avail_actions sd1) = 2" "length (sd_reward sd1) = 2"
    "length (sd_individual_rewards sd1) = 2" "length (sd_terminated sd1) = 2"
    using th by (simp_all add: n)
  note pw = th[THEN conjunct2, THEN conjunct2, THEN conjunct2, THEN conjunct2, THEN conjunct2,
      THEN conjunct2, rule_format]
  note D = pw[OF i(2), THEN conjunct1, rule_format, OF t1]
  note V = pw[OF i(1), THEN conjunct2, rule_format, OF t0, unfolded sel,
      THEN conjunct2, THEN conjunct2]
  have dz: "np_zeros [2, Suc 0] = Nd [Nd [Scalar 0], Nd [Scalar 0]]"
    "np_zeros [2] = Nd [Scalar 0, Scalar 0]"
    "np_ones [2, 3] = Nd [Nd [Scalar 1, Scalar 1, Scalar 1], Nd [Scalar 1, Scalar 1, Scalar 1]]"
    by (simp_all add: np_zeros_def np_ones_def eval_nat_numeral)
  have b: "sd_reward sd1 ! 1 = 0" "sd_terminated sd1 ! 1 = False"
    "sd_individual_rewards sd1 ! 1 = Nd [Nd [Scalar 0], Nd [Scalar 0]]"
    "sd_state sd1 ! 1 = Nd [Scalar 0, Scalar 0]"
    "sd_obs sd1 ! 1 = Nd [Nd [Scalar 0], Nd [Scalar 0]]"
    "sd_avail_actions sd1 ! 1
       = Nd [Nd [Scalar 1, Scalar 1, Scalar 1], Nd [Scalar 1, Scalar 1, Scalar 1]]"
    using D m na by (simp_all add: sh dz)
  have c: "sd_state sd1 ! 0 = Nd [Scalar 1, Scalar 2]"
    "sd_obs sd1 ! 0 = Nd [Nd [Scalar 3], Nd [Scalar 4]]"
    "sd_avail_actions sd1 ! 0
       = Nd [Nd [Scalar 1, Scalar 0, Scalar 1], Nd [Scalar 1, Scalar 1, Scalar 0]]"
    "sd_reward sd1 ! 0 = 2"
    using V[THEN conjunct1] V[THEN conjunct2, THEN conjunct1]
      V[THEN conjunct2, THEN conjunct2, THEN conjunct1]
      V[THEN conjunct2, THEN conjunct2, THEN conjunct2, THEN conjunct1]
    by (simp_all add: ex_workers_def)
  note V5 = V[THEN conjunct2, THEN conjunct2, THEN conjunct2, THEN conjunct2, THEN conjunct2]
  have e: "sd_individual_rewards sd1 ! 0 = Nd [Nd [Scalar 1], Nd [Scalar 1]]"
    using V5[THEN conjunct1] by (simp add: inf0)
  have f: "sd_terminated sd1 ! 0 = False"
    using V5[THEN conjunct2, THEN conjunct2, THEN conjunct2, rule_format, OF inf0(2)]
    by simp
  show ?thesis
    using l b c e f run1 runner_inv_ex_mixed n t0 t1 by simp
qed

section \<open>Synchronous mode: the full-batch reset\<close>

text \<open>
  Claim C5. When every worker is marked terminated at the start of \<^verbatim>\<open>sync_step\<close>, the
  call returns: it has sent \<^verbatim>\<open>reset\<close> to each of the N workers and nothing else, emits no
  terminal record, every entry of \<open>terminated\<close> in the batch is false and every reward is
  0, all fields have N entries, and every flag is cleared. The condition holds on a
  freshly constructed runner and after \<^verbatim>\<open>reset_all_env\<close>. No other call of \<^verbatim>\<open>sync_step\<close>
  sends a \<^verbatim>\<open>reset\<close> to any worker, so there is no partial restart.
\<close>

theorem sync_step_full_reset:
  fixes w :: "'a workers"
  assumes allt: "list_all (\<lambda>b. b) (terminated s)" and inv: "runner_inv s"
  shows "(\<exists>s' sd. sync_step w s actions =
            Inr (s', sd, [], map (\<lambda>i. (i, CReset)) [0..<env_batch_size s]) \<and>
          sd_terminated sd = replicate (env_batch_size s) False \<and>
          sd_reward sd = replicate (env_batch_size s) 0 \<and>
          length (sd_state sd) = env_batch_size s \<and>
          length (sd_avail_actions sd) = env_batch_size s \<and>
          length (sd_obs sd) = env_batch_size s \<and>
          length (sd_individual_rewards sd) = env_batch_size s \<and>
          terminated s' = replicate (env_batch_size s) False)
       \<and> list_all (\<lambda>b. b) (terminated (init_env a ev))
       \<and> list_all (\<lambda>b. b) (terminated (reset_all_env s))
       \<and> (\<forall>(w2 :: 'a workers) t actions2 s2 sd2 infos2 sent2 j.
            sync_step w2 t actions2 = Inr (s2, sd2, infos2, sent2) \<and>
            \<not> list_all (\<lambda>b. b) (terminated t) \<longrightarrow> (j, CReset) \<notin> set sent2)"
proof -
  have "length (terminated s) = env_batch_size s" using inv by (simp add: runner_inv_def)
  then have a: "\<exists>s' sd. sync_step w s actions =
            Inr (s', sd, [], map (\<lambda>i. (i, CReset)) [0..<env_batch_size s]) \<and>
          sd_terminated sd = replicate (env_batch_size s) False \<and>
          sd_reward sd = replicate (env_batch_size s) 0 \<and>
          length (sd_state sd) = env_batch_size s \<and>
          length (sd_avail_actions sd) = env_batch_size s \<and>
          length (sd_obs sd) = env_batch_size s \<and>
          length (sd_individual_rewards sd) = env_batch_size s \<and>
          terminated s' = replicate (env_batch_size s) False"
    by (simp add: sync_step_all_terminated[OF allt] map_replicate_const)
  have b: "list_all (\<lambda>b. b) (terminated (init_env a ev))"
    "list_all (\<lambda>b. b) (terminated (reset_all_env s))"
    by (simp_all add: init_env_def reset_all_env_def Let_def list_all_iff)
  have c: "\<forall>(w2 :: 'a workers) t actions2 s2 sd2 infos2 sent2 j.
            sync_step w2 t actions2 = Inr (s2, sd2, infos2, sent2) \<and>
            \<not> list_all (\<lambda>b. b) (terminated t) \<longrightarrow> (j, CReset) \<notin> set sent2"
    using sync_step_running_sent by blast
  from a b c show ?thesis by blast
qed

theorem sync_step_full_reset_witness:
  "list_all (\<lambda>b. b) (terminated (init_env ex_args False))
   \<and> runner_inv (init_env ex_args False)
   \<and> \<not> isl (sync_step ex_workers (init_env ex_args False) None)
   \<and> sd_reward (fst (snd (projr (sync_step ex_workers (init_env ex_args False) None)))) = [0, 0]
   \<and> terminated (fst (projr (sync_step ex_workers (init_env ex_args False) None)))
       = [False, False]"
proof -
  have allt: "list_all (\<lambda>b. b) (terminated (init_env ex_args False))"
    by (simp add: init_env_def ex_args_def list_all_iff)
  from sync_step_full_reset[OF allt runner_inv_init_env, of ex_workers None]
  obtain s' sd where
    run: "sync_step ex_workers (init_env ex_args False) None =
            Inr (s', sd, [], map (\<lambda>i. (i, CReset)) [0..<env_batch_size (init_env ex_args False)])"
    and r: "sd_reward sd = replicate (env_batch_size (init_env ex_args False)) 0"
           "terminated s' = replicate (env_batch_size (init_env ex_args False)) False"
    by blast
  have n: "env_batch_size (init_env ex_args False) = 2"
    by (simp add: init_env_def ex_args_def)
  show ?thesis
    using allt runner_inv_init_env[of ex_args False] run r
    by (simp add: n numeral_2_eq_2)
qed

section \<open>Synchronous mode: placeholders for terminated workers\<close>

text \<open>
  Claim C6. In a call of \<^verbatim>\<open>sync_step\<close> that returns while not all workers are terminated,
  a worker \<open>i\<close> that is marked terminated is sent no command at all; its batch entries are
  the placeholder built from the declared shapes (state and obs zero-filled, available
  actions one-filled, reward 0, terminated false, individual rewards zero-filled); and
  its flag stays set, so the same holds in the following calls until every worker is
  terminated.
\<close>

theorem sync_step_placeholder:
  assumes run: "sync_step w s actions = Inr (s', sd, infos, sent)"
    and inv: "runner_inv s"
    and nall: "\<not> list_all (\<lambda>b. b) (terminated s)"
    and i: "i < env_batch_size s" and dead: "terminated s ! i"
  shows "(\<forall>c. (i, c) \<notin> set sent) \<and>
         sd_state sd ! i = np_zeros [state_shape (rargs s)] \<and>
         sd_obs sd ! i = np_zeros [n_agents (rargs s), obs_shape (rargs s)] \<and>
         sd_avail_actions sd ! i = np_ones [n_agents (rargs s), n_actions (rargs s)] \<and>
         sd_reward sd ! i = 0 \<and> sd_terminated sd ! i = False \<and>
         sd_individual_rewards sd ! i = np_zeros [n_agents (rargs s), 1] \<and>
         terminated s' ! i"
proof -
  note d = sync_step_running(2)[OF run inv nall i dead]
  from d have "filter (\<lambda>p. fst p = i) sent = []" by simp
  then have "\<forall>c. (i, c) \<notin> set sent"
    by (auto simp: filter_empty_conv)
  with d show ?thesis by simp
qed

theorem sync_step_placeholder_witness:
  "\<not> isl (sync_step ex_workers ex_mixed (Some [0, 0]))
   \<and> runner_inv ex_mixed \<and> \<not> list_all (\<lambda>b. b) (terminated ex_mixed)
   \<and> (1::nat) < env_batch_size ex_mixed \<and> terminated ex_mixed ! 1
   \<and> sd_state (fst (snd (projr (sync_step ex_workers ex_mixed (Some [0, 0]))))) ! 1
       = Nd [Scalar 0, Scalar 0]
   \<and> sd_avail_actions (fst (snd (projr (sync_step ex_workers ex_mixed (Some [0, 0]))))) ! 1
       = Nd [Nd [Scalar 1, Scalar 1, Scalar 1], Nd [Scalar 1, Scalar 1, Scalar 1]]
   \<and> terminated (fst (projr (sync_step ex_workers ex_mixed (Some [0, 0])))) ! 1"
proof -
  from ex_sync_mixed_run obtain s' sd infos sent where
    run: "sync_step ex_workers ex_mixed (Some [0, 0]) = Inr (s', sd, infos, sent)"
    by (metis prod_cases4)
  have nall: "\<not> list_all (\<lambda>b. b) (terminated ex_mixed)"
    and i: "(1::nat) < env_batch_size ex_mixed" and dead: "terminated ex_mixed ! 1"
    by (simp_all add: ex_mixed_def)
  from sync_step_placeholder[OF run runner_inv_ex_mixed nall i dead]
  have f: "sd_state sd ! 1 = Nd [Scalar 0, Scalar 0] \<and>
           sd_avail_actions sd ! 1
             = Nd [Nd [Scalar 1, Scalar 1, Scalar 1], Nd [Scalar 1, Scalar 1, Scalar 1]] \<and>
           terminated s' ! 1"
    by (simp add: ex_mixed_def ex_args_def np_zeros_def np_ones_def eval_nat_numeral)
  show ?thesis
    using f run runner_inv_ex_mixed nall i dead by simp
qed

section \<open>Asynchronous mode: one command per worker\<close>

text \<open>
  Claim C7, as first stated: a worker that terminates on call K is reset on call K+1.
  It is not when the termination is an episode limit: both workers are running, the
  reply of worker 0 to action 1 says terminated with a true \<^verbatim>\<open>episode_limit\<close>, the call
  emits a terminal record for worker 0 and for worker 1, and the next call sends worker
  0 \<^verbatim>\<open>("step", 0)\<close>, not \<^verbatim>\<open>reset\<close>, while worker 1 is sent \<^verbatim>\<open>reset\<close>.
\<close>

theorem async_step_commands_counterexample:
  "\<not> terminated ex_async_running ! 0
   \<and> m_terminated (step_reply ex_workers 0 1)
   \<and> m_info (step_reply ex_workers 0 1) ''episode_limit'' = Some (Scalar 1)
   \<and> \<not> isl (async_step ex_workers ex_async_running (Some [1, 1]))
   \<and> map fst (fst (snd (snd (projr (async_step ex_workers ex_async_running (Some [1, 1]))))))
       = [0, 1]
   \<and> \<not> isl (async_step ex_workers
              (fst (projr (async_step ex_workers ex_async_running (Some [1, 1])))) (Some [0, 0]))
   \<and> snd (snd (snd (projr (async_step ex_workers
              (fst (projr (async_step ex_workers ex_async_running (Some [1, 1])))) (Some [0, 0])))))
       = [(0, CStep 0), (1, CReset)]"
  by (simp add: step_defs ex_async_running_def ex_running_def)

text \<open>
  Claim C7, amended. In a call of \<^verbatim>\<open>async_step\<close> that returns, the commands sent are one
  per worker, in worker order: \<^verbatim>\<open>reset\<close> for a worker marked terminated, and for any other
  worker \<^verbatim>\<open>actions[i]\<close> exists and the command is \<^verbatim>\<open>("step", actions[i])\<close>. For a resetting
  worker the flag is cleared and its batch entry has reward 0 and terminated false. For
  a stepping worker the flag is set exactly when the reply says terminated without a
  true \<^verbatim>\<open>episode_limit\<close> in its info. Hence in the next call that returns, whatever the
  other workers do, a worker whose flag was set is sent \<^verbatim>\<open>reset\<close> and rejoins, and a
  worker whose flag was not set, which includes one whose reply said terminated with a
  true \<^verbatim>\<open>episode_limit\<close>, is sent \<^verbatim>\<open>("step", actions[i])\<close> again.
\<close>

theorem async_step_commands:
  fixes w :: "'a workers"
  assumes run: "async_step w s actions = Inr (s', sd, infos, sent)"
    and inv: "runner_inv s"
  shows "map fst sent = [0..<env_batch_size s] \<and>
         (\<forall>i<env_batch_size s.
            (terminated s ! i \<longrightarrow>
               sent ! i = (i, CReset) \<and> \<not> terminated s' ! i \<and>
               sd_reward sd ! i = 0 \<and> sd_terminated sd ! i = False) \<and>
            (\<not> terminated s ! i \<longrightarrow>
               actions \<noteq> None \<and> i < length (the actions) \<and>
               sent ! i = (i, CStep (the actions ! i)) \<and>
               (terminated s' ! i \<longleftrightarrow>
                  m_terminated (step_reply w i (the actions ! i)) \<and>
                  limit_flag (m_info (step_reply w i (the actions ! i))) = Inr False) \<and>
               (m_info (step_reply w i (the actions ! i)) ''episode_limit'' = None \<longrightarrow>
                  (terminated s' ! i \<longleftrightarrow> m_terminated (step_reply w i (the actions ! i)))) \<and>
               (\<forall>x. m_info (step_reply w i (the actions ! i)) ''episode_limit'' = Some (Scalar x)
                  \<longrightarrow> (terminated s' ! i \<longleftrightarrow>
                        m_terminated (step_reply w i (the actions ! i)) \<and> x = 0)))) \<and>
         (\<forall>i (w2 :: 'a workers) actions2 s2 sd2 infos2 sent2.
            i < env_batch_size s \<and>
            async_step w2 s' actions2 = Inr (s2, sd2, infos2, sent2) \<longrightarrow>
            (terminated s' ! i \<longrightarrow> sent2 ! i = (i, CReset) \<and> \<not> terminated s2 ! i) \<and>
            (\<not> terminated s' ! i \<longrightarrow>
               actions2 \<noteq> None \<and> i < length (the actions2) \<and>
               sent2 ! i = (i, CStep (the actions2 ! i))))"
proof -
  note g = async_step_run(1)[OF run inv]
  have dead: "sent ! i = (i, CReset) \<and> \<not> terminated s' ! i \<and>
               sd_reward sd ! i = 0 \<and> sd_terminated sd ! i = False"
    if "i < env_batch_size s" "terminated s ! i" for i
    using async_step_run(2)[OF run inv that] by simp
  have lv: "actions \<noteq> None \<and> i < length (the actions) \<and>
               sent ! i = (i, CStep (the actions ! i)) \<and>
               (terminated s' ! i \<longleftrightarrow>
                  m_terminated (step_reply w i (the actions ! i)) \<and>
                  limit_flag (m_info (step_reply w i (the actions ! i))) = Inr False) \<and>
               (m_info (step_reply w i (the actions ! i)) ''episode_limit'' = None \<longrightarrow>
                  (terminated s' ! i \<longleftrightarrow> m_terminated (step_reply w i (the actions ! i)))) \<and>
               (\<forall>x. m_info (step_reply w i (the actions ! i)) ''episode_limit'' = Some (Scalar x)
                  \<longrightarrow> (terminated s' ! i \<longleftrightarrow>
                        m_terminated (step_reply w i (the actions ! i)) \<and> x = 0))"
    if "i < env_batch_size s" "\<not> terminated s ! i" for i
  proof -
    from async_step_run(3)[OF run inv that]
    obtain a where a: "py_index actions i = Inr a" and sn: "sent ! i = (i, CStep a)"
      and fl: "terminated s' ! i =
                 (m_terminated (step_reply w i a) \<and> limit_flag (m_info (step_reply w i a)) = Inr False)"
      by (auto simp: Let_def)
    from a have acts: "actions \<noteq> None" "i < length (the actions)" "a = the actions ! i"
      unfolding py_index_Inr by auto
    define d where "d = step_reply w i (the actions ! i)"
    have r: "terminated s' ! i = (m_terminated d \<and> limit_flag (m_info d) = Inr False)"
      using fl acts(3) by (simp add: d_def)
    have c1a: "m_info d ''episode_limit'' = None \<longrightarrow> (terminated s' ! i \<longleftrightarrow> m_terminated d)"
      using r limit_flag_absent[of "m_info d"] by simp
    have c1b: "\<forall>x. m_info d ''episode_limit'' = Some (Scalar x) \<longrightarrow>
             (terminated s' ! i \<longleftrightarrow> m_terminated d \<and> x = 0)"
      using r limit_flag_scalar[of "m_info d"] by auto
    have sn': "sent ! i = (i, CStep (the actions ! i))" using sn acts(3) by simp
    show ?thesis
      using acts(1,2) sn' r c1a c1b unfolding d_def by (intro conjI)
  qed
  have pw: "\<forall>i<env_batch_size s.
            (terminated s ! i \<longrightarrow>
               sent ! i = (i, CReset) \<and> \<not> terminated s' ! i \<and>
               sd_reward sd ! i = 0 \<and> sd_terminated sd ! i = False) \<and>
            (\<not> terminated s ! i \<longrightarrow>
               actions \<noteq> None \<and> i < length (the actions) \<and>
               sent ! i = (i, CStep (the actions ! i)) \<and>
               (terminated s' ! i \<longleftrightarrow>
                  m_terminated (step_reply w i (the actions ! i)) \<and>
                  limit_flag (m_info (step_reply w i (the actions ! i))) = Inr False) \<and>
               (m_info (step_reply w i (the actions ! i)) ''episode_limit'' = None \<longrightarrow>
                  (terminated s' ! i \<longleftrightarrow> m_terminated (step_reply w i (the actions ! i)))) \<and>
               (\<forall>x. m_info (step_reply w i (the actions ! i)) ''episode_limit'' = Some (Scalar x)
                  \<longrightarrow> (terminated s' ! i \<longleftrightarrow>
                        m_terminated (step_reply w i (the actions ! i)) \<and> x = 0)))"
    using dead lv by blast
  have fsts: "fst (sent ! i) = i" if "i < env_batch_size s" for i
    using dead[OF that] lv[OF that] by (cases "terminated s ! i") auto
  have m: "map fst sent = [0..<env_batch_size s]"
    using g fsts by (intro nth_equalityI) simp_all
  have inv': "runner_inv s'" and n': "env_batch_size s' = env_batch_size s"
    using async_step_inv[OF run inv] by simp_all
  have nxt: "(terminated s' ! i \<longrightarrow> sent2 ! i = (i, CReset) \<and> \<not> terminated s2 ! i) \<and>
            (\<not> terminated s' ! i \<longrightarrow>
               actions2 \<noteq> None \<and> i < length (the actions2) \<and>
               sent2 ! i = (i, CStep (the actions2 ! i)))"
    if "i < env_batch_size s" "async_step w2 s' actions2 = Inr (s2, sd2, infos2, sent2)"
    for i and w2 :: "'a workers" and actions2 s2 sd2 infos2 sent2
  proof (cases "terminated s' ! i")
    case True
    have "i < env_batch_size s'" using that(1) n' by simp
    from async_step_run(2)[OF that(2) inv' this True] True show ?thesis by simp
  next
    case False
    have i': "i < env_batch_size s'" using that(1) n' by simp
    from async_step_run(3)[OF that(2) inv' i' False]
    obtain a where a: "py_index actions2 i = Inr a" and sn: "sent2 ! i = (i, CStep a)"
      by (auto simp: Let_def)
    from a have "actions2 \<noteq> None" "i < length (the actions2)" "a = the actions2 ! i"
      unfolding py_index_Inr by auto
    with sn False show ?thesis by simp
  qed
  have nx: "\<forall>i (w2 :: 'a workers) actions2 s2 sd2 infos2 sent2.
            i < env_batch_size s \<and>
            async_step w2 s' actions2 = Inr (s2, sd2, infos2, sent2) \<longrightarrow>
            (terminated s' ! i \<longrightarrow> sent2 ! i = (i, CReset) \<and> \<not> terminated s2 ! i) \<and>
            (\<not> terminated s' ! i \<longrightarrow>
               actions2 \<noteq> None \<and> i < length (the actions2) \<and>
               sent2 ! i = (i, CStep (the actions2 ! i)))"
    using nxt by blast
  show ?thesis
    by (rule conjI[OF m conjI[OF pw nx]])
qed

theorem async_step_commands_witness:
  "\<not> isl (async_step ex_workers ex_async_mixed (Some [0, 0]))
   \<and> runner_inv ex_async_mixed
   \<and> snd (snd (snd (projr (async_step ex_workers ex_async_mixed (Some [0, 0]))))) ! 1
       = (1, CReset)
   \<and> \<not> terminated (fst (projr (async_step ex_workers ex_async_mixed (Some [0, 0])))) ! 1
   \<and> \<not> isl (async_step ex_workers ex_async_running (Some [2, 3]))
   \<and> runner_inv ex_async_running
   \<and> map fst (snd (snd (snd (projr (async_step ex_workers ex_async_running (Some [2, 3]))))))
       = [0, 1]
   \<and> snd (snd (snd (projr (async_step ex_workers ex_async_running (Some [2, 3]))))) ! 0
       = (0, CStep 2)
   \<and> snd (snd (snd (projr (async_step ex_workers ex_async_running (Some [2, 3]))))) ! 1
       = (1, CStep 3)
   \<and> \<not> isl (async_step ex_workers ex_async_running (Some [1, 1]))
   \<and> m_terminated (step_reply ex_workers 0 1)
   \<and> m_info (step_reply ex_workers 0 1) ''episode_limit'' = Some (Scalar 1)
   \<and> m_terminated (step_reply ex_workers 1 1)
   \<and> m_info (step_reply ex_workers 1 1) ''episode_limit'' = None
   \<and> \<not> terminated (fst (projr (async_step ex_workers ex_async_running (Some [1, 1])))) ! 0
   \<and> terminated (fst (projr (async_step ex_workers ex_async_running (Some [1, 1])))) ! 1
   \<and> \<not> isl (async_step ex_workers (fst (projr (async_step ex_workers ex_async_running (Some [1, 1])))) (Some [0, 0]))
   \<and> snd (snd (snd (projr (async_step ex_workers (fst (projr (async_step ex_workers ex_async_running (Some [1, 1])))) (Some [0, 0]))))) ! 0
       = (0, CStep 0)
   \<and> snd (snd (snd (projr (async_step ex_workers (fst (projr (async_step ex_workers ex_async_running (Some [1, 1])))) (Some [0, 0]))))) ! 1
       = (1, CReset)
   \<and> \<not> terminated (fst (projr (async_step ex_workers (fst (projr (async_step ex_workers ex_async_running (Some [1, 1])))) (Some [0, 0])))) ! 1"
proof -
  from ex_async_mixed_run obtain s' sd infos sent where
    run: "async_step ex_workers ex_async_mixed (Some [0, 0]) = Inr (s', sd, infos, sent)"
    by (metis prod_cases4)
  from ex_async_running_steps obtain t' td tinfos tsent where
    run2: "async_step ex_workers ex_async_running (Some [2, 3]) = Inr (t', td, tinfos, tsent)"
    by (metis prod_cases4)
  from ex_async_running_run obtain u' ud uinfos usent where
    run3: "async_step ex_workers ex_async_running (Some [1, 1]) = Inr (u', ud, uinfos, usent)"
    by (metis prod_cases4)
  from ex_async_running_next obtain v' vd vinfos vsent where
    run4: "async_step ex_workers u' (Some [0, 0]) = Inr (v', vd, vinfos, vsent)"
    unfolding run3 by (metis prod_cases4 fst_conv sum.sel(2))
  have n: "env_batch_size ex_async_mixed = 2" "env_batch_size ex_async_running = 2"
    and t: "terminated ex_async_mixed = [False, True]"
           "terminated ex_async_running = [False, False]"
    by (simp_all add: ex_async_mixed_def ex_mixed_def ex_async_running_def ex_running_def)
  have i: "(0::nat) < env_batch_size ex_async_running"
          "(1::nat) < env_batch_size ex_async_running"
    and live: "\<not> terminated ex_async_running ! 0" "\<not> terminated ex_async_running ! 1"
    by (simp_all add: n t)
  note th = async_step_commands[OF run runner_inv_ex_async_mixed]
  note pw = th[THEN conjunct2, THEN conjunct1, rule_format]
  have b1: "sent ! 1 = (1, CReset) \<and> \<not> terminated s' ! 1"
    using pw[of 1] by (simp add: n t)
  note th2 = async_step_commands[OF run2 runner_inv_ex_async_running]
  have a: "map fst tsent = [0, 1]"
    using th2[THEN conjunct1] by (simp add: n upt_two)
  note pw2 = th2[THEN conjunct2, THEN conjunct1, rule_format]
  have c0: "tsent ! 0 = (0, CStep 2)"
    using pw2[of 0, THEN conjunct2, rule_format, THEN conjunct2, THEN conjunct2, THEN conjunct1]
    by (simp add: n t)
  have c1: "tsent ! 1 = (1, CStep 3)"
    using pw2[of 1, THEN conjunct2, rule_format, THEN conjunct2, THEN conjunct2, THEN conjunct1]
    by (simp add: n t)
  note th3 = async_step_commands[OF run3 runner_inv_ex_async_running]
  have sel: "the (Some [1, 1::nat]) ! 0 = 1" "the (Some [1, 1::nat]) ! 1 = 1"
    "the (Some [0, 0::nat]) ! 0 = 0" by simp_all
  have r: "m_terminated (step_reply ex_workers 0 1)"
    "m_info (step_reply ex_workers 0 1) ''episode_limit'' = Some (Scalar 1)"
    "m_terminated (step_reply ex_workers 1 1)"
    "m_info (step_reply ex_workers 1 1) ''episode_limit'' = None"
    by (simp_all add: ex_workers_def)
  note L0 = th3[THEN conjunct2, THEN conjunct1, rule_format, OF i(1), THEN conjunct2,
      rule_format, OF live(1), unfolded sel, THEN conjunct2, THEN conjunct2, THEN conjunct2,
      THEN conjunct2]
  note L1 = th3[THEN conjunct2, THEN conjunct1, rule_format, OF i(2), THEN conjunct2,
      rule_format, OF live(2), unfolded sel, THEN conjunct2, THEN conjunct2, THEN conjunct2,
      THEN conjunct2]
  have u0: "\<not> terminated u' ! 0"
    using L0[THEN conjunct2, rule_format, OF r(2)] by simp
  have u1: "terminated u' ! 1"
    using L1[THEN conjunct1, rule_format, OF r(4)] r(3) by simp
  note N0 = th3[THEN conjunct2, THEN conjunct2, rule_format, OF conjI[OF i(1) run4]]
  note N1 = th3[THEN conjunct2, THEN conjunct2, rule_format, OF conjI[OF i(2) run4]]
  have v0: "vsent ! 0 = (0, CStep 0)"
    using N0[THEN conjunct2, rule_format, OF u0, THEN conjunct2, THEN conjunct2] by simp
  have v1: "vsent ! 1 = (1, CReset)" "\<not> terminated v' ! 1"
    using N1[THEN conjunct1, rule_format, OF u1] by simp_all
  have p1: "\<not> isl (async_step ex_workers ex_async_mixed (Some [0, 0]))
   \<and> runner_inv ex_async_mixed
   \<and> snd (snd (snd (projr (async_step ex_workers ex_async_mixed (Some [0, 0]))))) ! 1
       = (1, CReset)
   \<and> \<not> terminated (fst (projr (async_step ex_workers ex_async_mixed (Some [0, 0])))) ! 1
   \<and> \<not> isl (async_step ex_workers ex_async_running (Some [2, 3]))
   \<and> runner_inv ex_async_running
   \<and> map fst (snd (snd (snd (projr (async_step ex_workers ex_async_running (Some [2, 3]))))))
       = [0, 1]
   \<and> snd (snd (snd (projr (async_step ex_workers ex_async_running (Some [2, 3]))))) ! 0
       = (0, CStep 2)
   \<and> snd (snd (snd (projr (async_step ex_workers ex_async_running (Some [2, 3]))))) ! 1
       = (1, CStep 3)"
    using a b1 c0 c1 run run2 runner_inv_ex_async_mixed runner_inv_ex_async_running by simp
  have p2: "\<not> isl (async_step ex_workers ex_async_running (Some [1, 1]))
   \<and> m_terminated (step_reply ex_workers 0 1)
   \<and> m_info (step_reply ex_workers 0 1) ''episode_limit'' = Some (Scalar 1)
   \<and> m_terminated (step_reply ex_workers 1 1)
   \<and> m_info (step_reply ex_workers 1 1) ''episode_limit'' = None
   \<and> \<not> terminated (fst (projr (async_step ex_workers ex_async_running (Some [1, 1])))) ! 0
   \<and> terminated (fst (projr (async_step ex_workers ex_async_running (Some [1, 1])))) ! 1
   \<and> \<not> isl (async_step ex_workers (fst (projr (async_step ex_workers ex_async_running (Some [1, 1])))) (Some [0, 0]))
   \<and> snd (snd (snd (projr (async_step ex_workers (fst (projr (async_step ex_workers ex_async_running (Some [1, 1])))) (Some [0, 0]))))) ! 0
       = (0, CStep 0)
   \<and> snd (snd (snd (projr (async_step ex_workers (fst (projr (async_step ex_workers ex_async_running (Some [1, 1])))) (Some [0, 0]))))) ! 1
       = (1, CReset)
   \<and> \<not> terminated (fst (projr (async_step ex_workers (fst (projr (async_step ex_workers ex_async_running (Some [1, 1])))) (Some [0, 0])))) ! 1"
    using r u0 u1 v0 v1 run3 run4 by simp
  from p1 p2 show ?thesis by simp
qed

section \<open>The episode counters\<close>



section \<open>The total-step counter\<close>

text \<open>
  Claim C10. A call of \<^verbatim>\<open>step\<close> that returns increases \<open>env_total_step\<close> in synchronous
  mode by the number of workers not marked terminated at the start of the call, which is
  \<^verbatim>\<open>alive_env()\<close> and is zero on a full-batch-reset call, and in asynchronous mode by the
  batch size N, whether a worker was stepping or resetting.
\<close>

theorem step_total_step:
  assumes run: "step w s actions = Inr (s', sd, infos, sent)" and inv: "runner_inv s"
  shows "env_total_step s' =
           env_total_step s +
           (if asynchronous_env (rargs s) then int (env_batch_size s) else alive_env s)
         \<and> alive_env s = int (length (filter (\<lambda>i. \<not> terminated s ! i) [0..<env_batch_size s]))
         \<and> (\<not> asynchronous_env (rargs s) \<and> list_all (\<lambda>b. b) (terminated s)
              \<longrightarrow> env_total_step s' = env_total_step s)"
proof -
  have al: "alive_env s = int (length (filter (\<lambda>i. \<not> terminated s ! i) [0..<env_batch_size s]))"
    using inv alive_env_indices[of s] by (simp add: runner_inv_def)
  have al0: "alive_env s = 0" if "list_all (\<lambda>b. b) (terminated s)"
    using that by (simp add: alive_env_def list_all_iff filter_empty_conv)
  show ?thesis
  proof (cases "asynchronous_env (rargs s)")
    case True
    with run have "async_step w s actions = Inr (s', sd, infos, sent)" by (simp add: step_def)
    from async_step_run(1)[OF this inv] True al show ?thesis by simp
  next
    case False
    with run have r: "sync_step w s actions = Inr (s', sd, infos, sent)" by (simp add: step_def)
    show ?thesis
    proof (cases "list_all (\<lambda>b. b) (terminated s)")
      case True
      with r sync_step_all_terminated[OF True, of w actions] al0 al False
      show ?thesis by auto
    next
      case nall: False
      from sync_step_running(1)[OF r inv nall] False al nall show ?thesis by simp
    qed
  qed
qed

theorem step_total_step_witness:
  "\<not> isl (step ex_workers ex_mixed (Some [0, 0])) \<and> runner_inv ex_mixed
   \<and> \<not> asynchronous_env (rargs ex_mixed)
   \<and> env_total_step (fst (projr (step ex_workers ex_mixed (Some [0, 0])))) = 7
   \<and> \<not> isl (step ex_workers ex_async_mixed (Some [0, 0])) \<and> runner_inv ex_async_mixed
   \<and> asynchronous_env (rargs ex_async_mixed)
   \<and> env_total_step (fst (projr (step ex_workers ex_async_mixed (Some [0, 0])))) = 10"
proof -
  have m: "\<not> asynchronous_env (rargs ex_mixed)" "asynchronous_env (rargs ex_async_mixed)"
    by (simp_all add: ex_mixed_def ex_args_def ex_async_mixed_def)
  from ex_sync_mixed_run m(1) obtain s1 sd1 infos1 sent1 where
    run1: "step ex_workers ex_mixed (Some [0, 0]) = Inr (s1, sd1, infos1, sent1)"
    unfolding step_def by (metis prod_cases4)
  from ex_async_mixed_run m(2) obtain s2 sd2 infos2 sent2 where
    run2: "step ex_workers ex_async_mixed (Some [0, 0]) = Inr (s2, sd2, infos2, sent2)"
    unfolding step_def by (metis prod_cases4)
  have a: "env_total_step s1 = 7"
    using step_total_step[OF run1 runner_inv_ex_mixed, THEN conjunct1] m(1)
    by (simp add: alive_env_def ex_mixed_def)
  have b: "env_total_step s2 = 10"
    using step_total_step[OF run2 runner_inv_ex_async_mixed, THEN conjunct1] m(2)
    by (simp add: ex_async_mixed_def ex_mixed_def)
  show ?thesis
    using a b m run1 run2 runner_inv_ex_mixed runner_inv_ex_async_mixed by simp
qed

end
